theory Spec2Isabelle
  imports Complex_Main
begin

section \<open>Python values, exceptions and loops\<close>

text \<open>
  The library works on Python floats and lists. Floats are idealised as \<^typ>\<open>real\<close>
  (rounding is not modelled); a division is the one float operation that can raise, and
  it is modelled as such. A location \<open>[lat, lon]\<close> or \<open>[lat, lon, alt]\<close> is a list of
  reals, as in the source, and two locations are equal when the lists are.
  Every exception of the source is a value \<open>Inl e\<close> of the result type.
\<close>

datatype py_error =
  IndexError | KeyError | TypeError | ZeroDivisionError | UnboundLocalError | ExternalError

type_synonym 'a res = "py_error + 'a"

type_synonym loc = "real list"

definition pbind :: "'a res \<Rightarrow> ('a \<Rightarrow> 'b res) \<Rightarrow> 'b res" where
  "pbind m f = (case m of Inl e \<Rightarrow> Inl e | Inr x \<Rightarrow> f x)"

definition subscript :: "'a list \<Rightarrow> nat \<Rightarrow> 'a res" where
  \<comment> \<open>\<open>xs[i]\<close> for a non-negative index\<close>
  "subscript xs i = (if i < length xs then Inr (xs ! i) else Inl IndexError)"

definition subscript_last :: "'a list \<Rightarrow> 'a res" where
  \<comment> \<open>\<open>xs[-1]\<close>\<close>
  "subscript_last xs = (if xs = [] then Inl IndexError else Inr (last xs))"

definition py_div :: "real \<Rightarrow> real \<Rightarrow> real res" where
  "py_div a b = (if b = 0 then Inl ZeroDivisionError else Inr (a / b))"

fun div_by :: "real \<Rightarrow> real option \<Rightarrow> real res" where
  \<comment> \<open>\<open>a / b\<close> where \<open>b\<close> may be \<open>None\<close>\<close>
  "div_by a None = Inl TypeError"
| "div_by a (Some b) = py_div a b"

fun for_each :: "'i list \<Rightarrow> ('i \<Rightarrow> 's \<Rightarrow> 's res) \<Rightarrow> 's \<Rightarrow> 's res" where
  \<comment> \<open>\<open>for i in xs: s = body(i, s)\<close>, stopping at the first exception\<close>
  "for_each [] body s = Inr s"
| "for_each (i # js) body s =
     (case body i s of Inl e \<Rightarrow> Inl e | Inr s' \<Rightarrow> for_each js body s')"

definition lower_char :: "char \<Rightarrow> char" where
  "lower_char c =
     (let n = (of_char c :: nat) in if 65 \<le> n \<and> n \<le> 90 then char_of (n + 32) else c)"

definition lower :: "string \<Rightarrow> string" where
  \<comment> \<open>\<open>str.lower()\<close> on ASCII text\<close>
  "lower s = map lower_char s"

section \<open>What the library imports from modules outside the sources\<close>

text \<open>
  \<open>getShapepoints2D.py\<close> and \<open>utilities.py\<close> import their geometry, their validators,
  their constants and the routing clients from other modules. Those are parameters of
  the model, collected in one record; each field carries the name the source imports.
\<close>

type_synonym route = "loc list \<times> real list \<times> real list"

type_synonym validation = "bool \<times> string \<times> string"

type_synonym ref = nat

type_synonym heap = "ref \<Rightarrow> real list"

datatype pyobj = Ref ref | New "real list"


record locDict =
  lat :: real
  lon :: real
  alt :: real

text \<open>
  \<open>closestPointLoc2Path\<close> assigns to an element of the list that
  \<open>geoClosestPointLoc2Line\<close> returns, so there the caller's lists live in a store
  (\<^typ>\<open>heap\<close>) and that helper returns an object: \<open>Ref r\<close>, a list of the store
  (its argument \<open>loc\<close> or an end of the line), or \<open>New v\<close>, a list it has built.
  A validator's result \<open>[valFlag, errorMsg, warningMsg]\<close> is passed in as a value of
  type \<^typ>\<open>validation\<close>.
\<close>

record env =
  geoDistance2D :: "loc \<Rightarrow> loc \<Rightarrow> real"
  distributeTimeDist :: "loc list \<Rightarrow> real \<Rightarrow> (real list \<times> real list) res"
  locs2Dict :: "loc list \<Rightarrow> locDict list"
  loc2Dict :: "loc \<Rightarrow> locDict"
  replaceBackslashToSlash :: "string option \<Rightarrow> string option"
  dataProviderDictionary :: "string option \<rightharpoonup> string"
  pgrGetShapepointsTimeDist :: "loc \<Rightarrow> loc \<Rightarrow> string \<Rightarrow> route res"
  osrmGetShapepointsTimeDist :: "loc \<Rightarrow> loc \<Rightarrow> route res"
  mqGetShapepointsTimeDist :: "loc \<Rightarrow> loc \<Rightarrow> string \<Rightarrow> string \<Rightarrow> route res"
  orsGetShapepointsTimeDist :: "loc \<Rightarrow> loc \<Rightarrow> string \<Rightarrow> string \<Rightarrow> route res"
  geoIsPointInPoly :: "loc \<Rightarrow> loc list \<Rightarrow> bool"
  geoMinDistLoc2Line :: "loc \<Rightarrow> loc \<times> loc \<Rightarrow> real"
  geoClosestPointLoc2Line :: "heap \<Rightarrow> ref \<Rightarrow> ref \<times> ref \<Rightarrow> pyobj"
  convexHullVertices :: "loc list \<Rightarrow> nat list res"
  VRV_DEFAULT_DISTANCE_ERROR_TOLERANCE :: real
  VRV_SETTING_SHOWWARNINGMESSAGE :: bool

datatype message =
  ErrorMsg string
| WarningMsg string
| OriginFar real real real
| DestinationFar real real real

definition validated :: "env \<Rightarrow> validation \<Rightarrow> 'a \<Rightarrow> (message list \<Rightarrow> message list \<times> 'a res) \<Rightarrow>
    message list \<times> 'a res" where
  \<comment> \<open>the prologue every public function has: print the error and return early, or print
      the warning, if any, and go on\<close>
  "validated env val early body =
     (case val of (valFlag, errorMsg, warningMsg) \<Rightarrow>
        if \<not> valFlag then ([ErrorMsg errorMsg], Inr early)
        else if VRV_SETTING_SHOWWARNINGMESSAGE env \<and> warningMsg \<noteq> []
          then body [WarningMsg warningMsg]
          else body [])"

section \<open>The two direct route rules\<close>

definition eucGetShapepointsTimeDist ::
  "env \<Rightarrow> loc \<Rightarrow> loc \<Rightarrow> real option \<Rightarrow> real option \<Rightarrow> route res" where
  "eucGetShapepointsTimeDist env startLoc endLoc speedMPS expDurationSec =
     (let path = [startLoc, endLoc];
          d1 = geoDistance2D env startLoc endLoc;
          dist = [0, d1]
      in case expDurationSec of
           Some D \<Rightarrow> Inr (path, [0, D], dist)
         | None \<Rightarrow> pbind (div_by d1 speedMPS) (\<lambda>t1. Inr (path, [0, t1], dist)))"

definition manCorner :: "loc \<Rightarrow> loc \<Rightarrow> bool \<Rightarrow> loc res" where
  \<comment> \<open>the middle point of the grid path: \<open>[endLoc[0], startLoc[1]]\<close> when
      \<open>verticalFirst\<close>, \<open>[startLoc[0], endLoc[1]]\<close> otherwise\<close>
  "manCorner startLoc endLoc verticalFirst =
     (if verticalFirst
      then pbind (subscript endLoc 0) (\<lambda>e0. pbind (subscript startLoc 1) (\<lambda>s1. Inr [e0, s1]))
      else pbind (subscript startLoc 0) (\<lambda>s0. pbind (subscript endLoc 1) (\<lambda>e1. Inr [s0, e1])))"

definition manGetShapepointsTimeDist ::
  "env \<Rightarrow> loc \<Rightarrow> loc \<Rightarrow> real option \<Rightarrow> real option \<Rightarrow> bool \<Rightarrow> route res" where
  "manGetShapepointsTimeDist env startLoc endLoc speedMPS expDurationSec verticalFirst =
     pbind (manCorner startLoc endLoc verticalFirst) (\<lambda>corner.
       let path = [startLoc, corner, endLoc];
           d1 = geoDistance2D env startLoc corner;
           d2 = geoDistance2D env corner endLoc;
           dist = [0, d1, d2]
       in case expDurationSec of
            Some D \<Rightarrow>
              pbind (py_div (D * d1) (d1 + d2)) (\<lambda>t1.
              pbind (py_div (D * d2) (d1 + d2)) (\<lambda>t2.
                Inr (path, [0, t1, t2], dist)))
          | None \<Rightarrow>
              pbind (div_by d1 speedMPS) (\<lambda>t1.
              pbind (div_by d2 speedMPS) (\<lambda>t2.
                Inr (path, [0, t1, t2], dist))))"

section \<open>getShapepoints2D\<close>

record display =
  leafletColor :: string
  leafletWeight :: int
  leafletStyle :: string
  leafletOpacity :: real
  useArrows :: bool
  modelScale :: int
  modelMinPxSize :: int
  cesiumColor :: string
  cesiumWeight :: int
  cesiumStyle :: string
  cesiumOpacity :: real

text \<open>
  A row of the Assignments dataframe. The eleven display columns are copied from the
  arguments unchanged and are kept together in the field \<open>style\<close>.
\<close>

record assignment =
  odID :: int
  objectID :: "string option"
  modelFile :: "string option"
  startTimeSec :: real
  startLat :: real
  startLon :: real
  startAltMeters :: real
  endTimeSec :: real
  endLat :: real
  endLon :: real
  endAltMeters :: real
  style :: display

definition providerIs :: "env \<Rightarrow> bool \<Rightarrow> string option \<Rightarrow> string \<Rightarrow> bool res" where
  \<comment> \<open>\<open>routeTypeTest and dataProviderDictionary[dataProvider] == name\<close>: the dictionary
      is read only when the left operand holds, and a missing key raises\<close>
  "providerIs env routeTypeTest dataProvider name =
     (if routeTypeTest
      then (case dataProviderDictionary env dataProvider of
              None \<Rightarrow> Inl KeyError
            | Some v \<Rightarrow> Inr (v = name))
      else Inr False)"

definition dictArg :: "(string \<rightharpoonup> string) option \<Rightarrow> string \<Rightarrow> string res" where
  \<comment> \<open>\<open>dataProviderArgs[key]\<close>\<close>
  "dictArg dataProviderArgs key =
     (case dataProviderArgs of
        None \<Rightarrow> Inl TypeError
      | Some d \<Rightarrow> (case d key of None \<Rightarrow> Inl KeyError | Some v \<Rightarrow> Inr v))"

definition selectRoute ::
  "env \<Rightarrow> loc \<Rightarrow> loc \<Rightarrow> real option \<Rightarrow> real option \<Rightarrow> string option \<Rightarrow> string option \<Rightarrow>
     (string \<rightharpoonup> string) option \<Rightarrow> route option res" where
  \<comment> \<open>the chain of \<open>if\<close>/\<open>elif\<close> on the route type and the data provider; \<open>None\<close> is
      the final \<open>else: return\<close>. Where \<open>routeType\<close> is passed on it is one of the strings of
      the test before, so \<open>the routeType\<close> is that string\<close>
  "selectRoute env startLoc endLoc speedMPS expDurationSec routeType dataProvider dataProviderArgs =
     (if routeType = Some ''euclidean2d'' then
        pbind (eucGetShapepointsTimeDist env startLoc endLoc speedMPS expDurationSec)
          (\<lambda>r. Inr (Some r))
      else if routeType = Some ''manhattan'' then
        pbind (manGetShapepointsTimeDist env startLoc endLoc speedMPS expDurationSec True)
          (\<lambda>r. Inr (Some r))
      else
        pbind (providerIs env (routeType = Some ''fastest'') dataProvider ''pgrouting'') (\<lambda>c1.
        if c1 then
          pbind (dictArg dataProviderArgs ''databaseName'') (\<lambda>databaseName.
          pbind (pgrGetShapepointsTimeDist env startLoc endLoc databaseName) (\<lambda>r. Inr (Some r)))
        else
        pbind (providerIs env (routeType = Some ''fastest'') dataProvider ''osrm-online'') (\<lambda>c2.
        if c2 then
          pbind (osrmGetShapepointsTimeDist env startLoc endLoc) (\<lambda>r. Inr (Some r))
        else
        pbind (providerIs env
                 (routeType \<in> set [Some ''fastest'', Some ''shortest'', Some ''pedestrian''])
                 dataProvider ''mapquest'') (\<lambda>c3.
        if c3 then
          pbind (dictArg dataProviderArgs ''APIkey'') (\<lambda>APIkey.
          pbind (mqGetShapepointsTimeDist env startLoc endLoc (the routeType) APIkey)
            (\<lambda>r. Inr (Some r)))
        else
        pbind (providerIs env
                 (routeType \<in> set [Some ''fastest'', Some ''pedestrian'', Some ''cycling'',
                                   Some ''truck''])
                 dataProvider ''ors-online'') (\<lambda>c4.
        if c4 then
          pbind (dictArg dataProviderArgs ''APIkey'') (\<lambda>APIkey.
          pbind (orsGetShapepointsTimeDist env startLoc endLoc (the routeType) APIkey)
            (\<lambda>r. Inr (Some r)))
        else Inr None)))))"

definition advisory ::
  "env \<Rightarrow> (real \<Rightarrow> real \<Rightarrow> real \<Rightarrow> message) \<Rightarrow> loc \<Rightarrow> real \<Rightarrow> message list res" where
  \<comment> \<open>\<open>if (d >= VRV_DEFAULT_DISTANCE_ERROR_TOLERANCE): print("Message: ..." % (loc[0], loc[1], d))\<close>\<close>
  "advisory env mk l d =
     (if d \<ge> VRV_DEFAULT_DISTANCE_ERROR_TOLERANCE env
      then pbind (subscript l 0) (\<lambda>a. pbind (subscript l 1) (\<lambda>b. Inr [mk a b d]))
      else Inr [])"

definition accumulate :: "real \<Rightarrow> nat \<Rightarrow> real list \<Rightarrow> real list res" where
  \<comment> \<open>\<open>acc = [init]; for i in range(1, n): acc.append(acc[i - 1] + xs[i])\<close>\<close>
  "accumulate init n xs =
     for_each [1..<n]
       (\<lambda>i acc. pbind (subscript acc (i - 1)) (\<lambda>a. pbind (subscript xs i) (\<lambda>x. Inr (acc @ [a + x]))))
       [init]"

definition retime ::
  "env \<Rightarrow> loc list \<Rightarrow> real list \<Rightarrow> real list \<Rightarrow> real option \<Rightarrow> real option \<Rightarrow>
     (real list \<times> real list) res" where
  \<comment> \<open>the accumulated distance, then the override of the times by \<open>expDurationSec\<close> or by
      \<open>speedMPS\<close>; the result is the pair \<open>(time, dist)\<close> the rest of the function uses\<close>
  "retime =
     (\<lambda>env path time dist speedMPS expDurationSec.
     pbind (accumulate 0 (length dist) dist) (\<lambda>accDist.
       case expDurationSec of
         Some D \<Rightarrow> distributeTimeDist env path D
       | None \<Rightarrow>
           (case speedMPS of
              Some v \<Rightarrow>
                pbind (subscript accDist (length accDist - 1)) (\<lambda>total.
                pbind (py_div total v) (\<lambda>newExpDurationSec.
                  distributeTimeDist env path newExpDurationSec))
            | None \<Rightarrow> Inr (time, dist))))"

definition assignmentRow ::
  "int \<Rightarrow> string option \<Rightarrow> string option \<Rightarrow> display \<Rightarrow> real list \<Rightarrow> locDict list \<Rightarrow> nat \<Rightarrow>
     assignment res" where
  \<comment> \<open>the dictionary appended for index \<open>i\<close>\<close>
  "assignmentRow odID' objectID' modelFile' style' accTime dicPath i =
     pbind (subscript accTime (i - 1)) (\<lambda>t0.
     pbind (subscript dicPath (i - 1)) (\<lambda>p0.
     pbind (subscript accTime i) (\<lambda>t1.
     pbind (subscript dicPath i) (\<lambda>p1.
       Inr \<lparr>odID = odID', objectID = objectID', modelFile = modelFile',
            startTimeSec = t0, startLat = lat p0, startLon = lon p0, startAltMeters = alt p0,
            endTimeSec = t1, endLat = lat p1, endLon = lon p1, endAltMeters = alt p1,
            style = style'\<rparr>))))"

definition getShapepoints2D ::
  "env \<Rightarrow> validation \<Rightarrow> int \<Rightarrow> string option \<Rightarrow> string option \<Rightarrow> loc \<Rightarrow> loc \<Rightarrow> real \<Rightarrow>
     real option \<Rightarrow> string option \<Rightarrow> real option \<Rightarrow> display \<Rightarrow> string option \<Rightarrow>
     (string \<rightharpoonup> string) option \<Rightarrow> message list \<times> assignment list option res" where
  "getShapepoints2D =
     (\<lambda>env val odID objectID modelFile startLoc endLoc startTimeSec expDurationSec routeType
        speedMPS style dataProvider dataProviderArgs.
      validated env val None (\<lambda>out.
        let modelFile = replaceBackslashToSlash env modelFile;
            dataProvider = map_option lower dataProvider;
            routeType = map_option lower routeType
        in
        if startLoc \<noteq> endLoc then
          (case selectRoute env startLoc endLoc speedMPS expDurationSec routeType dataProvider
                  dataProviderArgs of
             Inl e \<Rightarrow> (out, Inl e)
           | Inr None \<Rightarrow> (out, Inr None)
           | Inr (Some route) \<Rightarrow>
               (\<lambda>(path, time, dist).
               (case pbind (subscript path 0) (\<lambda>p0.
                       advisory env OriginFar startLoc (geoDistance2D env startLoc p0)) of
                  Inl e \<Rightarrow> (out, Inl e)
                | Inr m1 \<Rightarrow>
               (case pbind (subscript_last path) (\<lambda>pl.
                       advisory env DestinationFar endLoc (geoDistance2D env pl endLoc)) of
                  Inl e \<Rightarrow> (out @ m1, Inl e)
                | Inr m2 \<Rightarrow>
                    (out @ m1 @ m2,
                     pbind (retime env path time dist speedMPS expDurationSec) (\<lambda>(time, dist).
                     pbind (accumulate startTimeSec (length dist) time) (\<lambda>accTime.
                     let dicPath = locs2Dict env path in
                     pbind (for_each [1..<length path]
                              (\<lambda>i assignments.
                                 pbind (assignmentRow odID objectID modelFile style accTime dicPath i)
                                   (\<lambda>row. Inr (assignments @ [row])))
                              [])
                       (\<lambda>assignments. Inr (Some assignments)))))))) route)
        else
          let dicStartLoc = loc2Dict env startLoc in
          (out,
           Inr (Some
             [\<lparr>odID = odID, objectID = objectID, modelFile = modelFile,
               startTimeSec = startTimeSec,
               startLat = lat dicStartLoc, startLon = lon dicStartLoc,
               startAltMeters = alt dicStartLoc,
               endTimeSec = (case expDurationSec of Some D \<Rightarrow> D + startTimeSec
                             | None \<Rightarrow> startTimeSec),
               endLat = lat dicStartLoc, endLon = lon dicStartLoc,
               endAltMeters = alt dicStartLoc,
               style = style\<rparr>]))))"

section \<open>isPointInPoly, closestPointLoc2Path and getConvexHull\<close>

definition project2D :: "loc list \<Rightarrow> loc list res" where
  \<comment> \<open>\<open>for i in range(len(xs)): out.append([xs[i][0], xs[i][1]])\<close>\<close>
  "project2D xs =
     for_each [0..<length xs]
       (\<lambda>i out. pbind (subscript xs i) (\<lambda>p.
                 pbind (subscript p 0) (\<lambda>a. pbind (subscript p 1) (\<lambda>b. Inr (out @ [[a, b]])))))
       []"

definition isPointInPoly ::
  "env \<Rightarrow> validation \<Rightarrow> loc \<Rightarrow> loc list \<Rightarrow> message list \<times> bool option res" where
  "isPointInPoly env val loc poly =
     validated env val None (\<lambda>out.
       (out,
        pbind (subscript loc 0) (\<lambda>a. pbind (subscript loc 1) (\<lambda>b.
        let loc2D = [a, b] in
        pbind (project2D poly) (\<lambda>poly2D.
        let inside = geoIsPointInPoly env loc2D poly2D in
        Inr (Some inside))))))"






definition withinTolerance :: "loc \<Rightarrow> loc \<Rightarrow> bool res" where
  \<comment> \<open>\<open>abs(c[0] - l[0]) < 0.0001 and abs(c[1] - l[1]) < 0.0001\<close>\<close>
  "withinTolerance c l =
     pbind (subscript c 0) (\<lambda>c0. pbind (subscript l 0) (\<lambda>l0.
       if \<bar>c0 - l0\<bar> < 1 / 10000
       then pbind (subscript c 1) (\<lambda>c1. pbind (subscript l 1) (\<lambda>l1.
              Inr (\<bar>c1 - l1\<bar> < 1 / 10000)))
       else Inr False))"

definition getConvexHull ::
  "env \<Rightarrow> validation \<Rightarrow> loc list \<Rightarrow> message list \<times> loc list option res" where
  \<comment> \<open>\<open>convexHullVertices\<close> is \<open>scipy.spatial.ConvexHull(locs2D).vertices\<close>\<close>
  "getConvexHull env val locs =
     validated env val None (\<lambda>out.
       (out,
        pbind (project2D locs) (\<lambda>locs2D.
        pbind (convexHullVertices env locs2D) (\<lambda>vertices.
        pbind (for_each vertices (\<lambda>i ch2D. pbind (subscript locs i) (\<lambda>p. Inr (ch2D @ [p]))) [])
          (\<lambda>ch2D.
        pbind (for_each [0..<length ch2D]
                 (\<lambda>i ch.
                    for_each [0..<length locs2D]
                      (\<lambda>j ch.
                         pbind (subscript ch2D i) (\<lambda>c.
                         pbind (subscript locs2D j) (\<lambda>l.
                         pbind (withinTolerance c l) (\<lambda>near.
                           if near then pbind (subscript locs j) (\<lambda>p. Inr (ch @ [p]))
                           else Inr ch))))
                      ch)
                 [])
          (\<lambda>ch. Inr (Some ch)))))))"

section \<open>The imported parts, as the specification describes them\<close>

text \<open>
  Modelled from the spec: \<open>geoDistance2D\<close> of \<open>veroviz._geometry\<close>, ``great-circle/geodesic
  distance ignoring altitude'', here the great-circle distance on a sphere of radius
  6371 km. It reads the first two components of its arguments.
\<close>

definition geoDistance2D_spec :: "loc \<Rightarrow> loc \<Rightarrow> real" where
  \<comment> \<open>Modelled from the spec: \<open>geoDistance2D\<close>, the great-circle distance ignoring altitude\<close>
  "geoDistance2D_spec a b =
     (let p1 = a ! 0 * pi / 180; p2 = b ! 0 * pi / 180; dl = (b ! 1 - a ! 1) * pi / 180
      in 2 * 6371000 *
         arcsin (sqrt ((sin ((p2 - p1) / 2))\<^sup>2 + cos p1 * cos p2 * (sin (dl / 2))\<^sup>2)))"

text \<open>
  Modelled from the spec: \<open>distributeTimeDist\<close> of \<open>veroviz._internal\<close>, section 4.3:
  \<open>newTime[i] = D * length[i] / totalLength\<close>, and when the total length is zero the
  whole duration goes to the final segment. Both lists start with the entry 0 of the
  first point, as the lists of the two direct rules do.
\<close>

definition segmentLengths :: "(loc \<Rightarrow> loc \<Rightarrow> real) \<Rightarrow> loc list \<Rightarrow> real list" where
  "segmentLengths gd path = map (\<lambda>i. gd (path ! (i - 1)) (path ! i)) [1..<length path]"

definition distributeTimeDist_spec ::
  "(loc \<Rightarrow> loc \<Rightarrow> real) \<Rightarrow> loc list \<Rightarrow> real \<Rightarrow> (real list \<times> real list) res" where
  \<comment> \<open>Modelled from the spec: \<open>distributeTimeDist\<close>, times in proportion to the segment
      lengths, the whole duration on the final segment when the total length is zero\<close>
  "distributeTimeDist_spec gd path D =
     (let ls = segmentLengths gd path;
          total = sum_list ls;
          n = length ls;
          ts = (if total = 0 then map (\<lambda>k. if Suc k = n then D else 0) [0..<n]
                else map (\<lambda>l. D * l / total) ls)
      in Inr (0 # ts, 0 # ls))"

text \<open>
  Modelled from the spec: \<open>loc2Dict\<close> and \<open>locs2Dict\<close> of \<open>veroviz._internal\<close>, from the
  data model: a location is (latitude, longitude, optional altitude, default 0).
\<close>

definition loc2Dict_spec :: "loc \<Rightarrow> locDict" where
  \<comment> \<open>Modelled from the spec: \<open>loc2Dict\<close>, with the altitude 0 when there is none\<close>
  "loc2Dict_spec l = \<lparr>lat = l ! 0, lon = l ! 1, alt = (if length l = 3 then l ! 2 else 0)\<rparr>"

text \<open>
  Modelled from the spec: \<open>geoIsPointInPoly\<close> of \<open>veroviz._geometry\<close>, section 4.5:
  ray casting in the plane of (latitude, longitude) over the implicitly closed polygon,
  where a point on an edge or a vertex counts as inside.
\<close>

definition onSegment :: "loc \<Rightarrow> loc \<Rightarrow> loc \<Rightarrow> bool" where
  "onSegment p a b =
     ((b ! 0 - a ! 0) * (p ! 1 - a ! 1) = (b ! 1 - a ! 1) * (p ! 0 - a ! 0) \<and>
      min (a ! 0) (b ! 0) \<le> p ! 0 \<and> p ! 0 \<le> max (a ! 0) (b ! 0) \<and>
      min (a ! 1) (b ! 1) \<le> p ! 1 \<and> p ! 1 \<le> max (a ! 1) (b ! 1))"

definition polyEdges :: "loc list \<Rightarrow> (loc \<times> loc) list" where
  "polyEdges poly = zip poly (rotate1 poly)"

definition rayCrosses :: "loc \<Rightarrow> loc \<times> loc \<Rightarrow> bool" where
  "rayCrosses p e =
     (case e of (a, b) \<Rightarrow>
        (p ! 1 < a ! 1) \<noteq> (p ! 1 < b ! 1) \<and>
        p ! 0 < (b ! 0 - a ! 0) * (p ! 1 - a ! 1) / (b ! 1 - a ! 1) + a ! 0)"

definition geoIsPointInPoly_spec :: "loc \<Rightarrow> loc list \<Rightarrow> bool" where
  \<comment> \<open>Modelled from the spec: \<open>geoIsPointInPoly\<close>, ray casting with the boundary inside\<close>
  "geoIsPointInPoly_spec p poly =
     (list_ex (\<lambda>(a, b). onSegment p a b) (polyEdges poly) \<or>
      odd (length (filter (rayCrosses p) (polyEdges poly))))"

text \<open>
  Modelled from the spec: \<open>geoClosestPointLoc2Line\<close> and \<open>geoMinDistLoc2Line\<close> of
  \<open>veroviz._geometry\<close>, section 4.5: the nearest point of a segment, by projection in
  the plane of (latitude, longitude), and the distance to it. A location is an
  immutable value with no identity beyond its coordinates (section 3), so the answer is
  a list of its own: the components of the nearer end of the line when the nearest
  point is an end, and the two coordinates of the projection otherwise.
\<close>

definition lineParam :: "loc \<Rightarrow> loc \<Rightarrow> loc \<Rightarrow> real" where
  "lineParam p a b =
     (let ux = b ! 0 - a ! 0; uy = b ! 1 - a ! 1; len2 = ux * ux + uy * uy
      in if len2 = 0 then 0 else ((p ! 0 - a ! 0) * ux + (p ! 1 - a ! 1) * uy) / len2)"

definition geoClosestPointLoc2Line_spec :: "heap \<Rightarrow> ref \<Rightarrow> ref \<times> ref \<Rightarrow> pyobj" where
  \<comment> \<open>Modelled from the spec: \<open>geoClosestPointLoc2Line\<close>, the nearest point of the segment\<close>
  "geoClosestPointLoc2Line_spec h l line =
     (let p = h l; a = h (fst line); b = h (snd line); t = lineParam p a b
      in if t \<le> 0 then New a
         else if 1 \<le> t then New b
         else New [a ! 0 + t * (b ! 0 - a ! 0), a ! 1 + t * (b ! 1 - a ! 1)])"

definition geoMinDistLoc2Line_spec :: "loc \<Rightarrow> loc \<times> loc \<Rightarrow> real" where
  \<comment> \<open>Modelled from the spec: \<open>geoMinDistLoc2Line\<close>, the distance to that nearest point\<close>
  "geoMinDistLoc2Line_spec p line =
     (case line of (a, b) \<Rightarrow>
        let t = lineParam p a b
        in if t \<le> 0 then geoDistance2D_spec p a
           else if 1 \<le> t then geoDistance2D_spec p b
           else geoDistance2D_spec p [a ! 0 + t * (b ! 0 - a ! 0), a ! 1 + t * (b ! 1 - a ! 1)])"

text \<open>
  The environment the closed examples below run in: the parts above, a dictionary
  of the four provider names the source compares with, the tolerance of 10 meters, and
  no network and no hull library (their calls raise).
\<close>

definition env0 :: env where
  "env0 =
     \<lparr>geoDistance2D = geoDistance2D_spec,
      distributeTimeDist = distributeTimeDist_spec geoDistance2D_spec,
      locs2Dict = map loc2Dict_spec,
      loc2Dict = loc2Dict_spec,
      replaceBackslashToSlash = map_option (map (\<lambda>c. if c = CHR 0x5C then CHR ''/'' else c)),
      dataProviderDictionary =
        map_of [(Some ''pgrouting'', ''pgrouting''), (Some ''osrm-online'', ''osrm-online''),
                (Some ''mapquest'', ''mapquest''), (Some ''ors-online'', ''ors-online'')],
      pgrGetShapepointsTimeDist = (\<lambda>startLoc endLoc databaseName. Inl ExternalError),
      osrmGetShapepointsTimeDist = (\<lambda>startLoc endLoc. Inl ExternalError),
      mqGetShapepointsTimeDist = (\<lambda>startLoc endLoc routeType APIkey. Inl ExternalError),
      orsGetShapepointsTimeDist = (\<lambda>startLoc endLoc routeType APIkey. Inl ExternalError),
      geoIsPointInPoly = geoIsPointInPoly_spec,
      geoMinDistLoc2Line = geoMinDistLoc2Line_spec,
      geoClosestPointLoc2Line = geoClosestPointLoc2Line_spec,
      convexHullVertices = (\<lambda>locs2D. Inl ExternalError),
      VRV_DEFAULT_DISTANCE_ERROR_TOLERANCE = 10,
      VRV_SETTING_SHOWWARNINGMESSAGE = True\<rparr>"

definition style0 :: display where
  \<comment> \<open>the default values of the display arguments\<close>
  "style0 =
     \<lparr>leafletColor = ''orange'', leafletWeight = 3, leafletStyle = ''solid'',
      leafletOpacity = 8 / 10, useArrows = True, modelScale = 100, modelMinPxSize = 75,
      cesiumColor = ''Cesium.Color.ORANGE'', cesiumWeight = 3, cesiumStyle = ''solid'',
      cesiumOpacity = 8 / 10\<rparr>"

text \<open>
  The two ways the corner of a grid path can sit between the endpoints.
\<close>

definition sharesStartLatEndLon :: "loc \<Rightarrow> loc \<Rightarrow> loc \<Rightarrow> bool" where
  "sharesStartLatEndLon startLoc endLoc corner =
     (corner ! 0 = startLoc ! 0 \<and> corner ! 1 = endLoc ! 1)"

definition sharesStartLonEndLat :: "loc \<Rightarrow> loc \<Rightarrow> loc \<Rightarrow> bool" where
  "sharesStartLonEndLat startLoc endLoc corner =
     (corner ! 1 = startLoc ! 1 \<and> corner ! 0 = endLoc ! 0)"

text \<open>
  The length of one degree of latitude on the sphere of \<open>geoDistance2D_spec\<close>.
\<close>

definition oneDegree :: real where
  "oneDegree = 6371000 * pi / 180"

text \<open>
  Rows that follow one another in time and in space, the first one starting at \<open>t0\<close>.
\<close>

definition contiguous :: "real \<Rightarrow> assignment list \<Rightarrow> bool" where
  "contiguous t0 rows =
     ((rows \<noteq> [] \<longrightarrow> startTimeSec (rows ! 0) = t0) \<and>
      (\<forall>k. Suc k < length rows \<longrightarrow>
         endTimeSec (rows ! k) = startTimeSec (rows ! Suc k) \<and>
         endLat (rows ! k) = startLat (rows ! Suc k) \<and>
         endLon (rows ! k) = startLon (rows ! Suc k)))"

text \<open>
  The pairings of route type and data provider that \<open>getShapepoints2D\<close> has a branch
  for, and the route types whose test reads \<open>dataProviderDictionary\<close>. Both take the
  lower-cased arguments.
\<close>

definition recognizedPairing :: "env \<Rightarrow> string option \<Rightarrow> string option \<Rightarrow> bool" where
  "recognizedPairing env routeType dataProvider =
     (routeType = Some ''euclidean2d'' \<or> routeType = Some ''manhattan'' \<or>
      (routeType = Some ''fastest'' \<and>
         dataProviderDictionary env dataProvider = Some ''pgrouting'') \<or>
      (routeType = Some ''fastest'' \<and>
         dataProviderDictionary env dataProvider = Some ''osrm-online'') \<or>
      (routeType \<in> {Some ''fastest'', Some ''shortest'', Some ''pedestrian''} \<and>
         dataProviderDictionary env dataProvider = Some ''mapquest'') \<or>
      (routeType \<in> {Some ''fastest'', Some ''pedestrian'', Some ''cycling'', Some ''truck''} \<and>
         dataProviderDictionary env dataProvider = Some ''ors-online''))"

definition needsProvider :: "string option \<Rightarrow> bool" where
  "needsProvider routeType =
     (routeType \<in> {Some ''fastest'', Some ''shortest'', Some ''pedestrian'', Some ''cycling'',
                   Some ''truck''})"

text \<open>
  Modelled from the spec: \<open>valGetShapepoints2D\<close> of \<open>veroviz._validation\<close>, section 7:
  a malformed location and an unsupported pairing of route type and data provider are
  invalid input, signalled at once. A location is well formed when it has two or three
  components (section 3). The validator is handed the arguments as the caller wrote
  them, before they are lower-cased.
\<close>

definition wellformedLoc :: "loc \<Rightarrow> bool" where
  "wellformedLoc l = (length l = 2 \<or> length l = 3)"

definition malformedLocation :: string where
  "malformedLocation = ''Error: a location must be [lat, lon] or [lat, lon, alt].''"

definition unsupportedCombination :: string where
  "unsupportedCombination = ''Error: unsupported combination of routeType and dataProvider.''"

definition valGetShapepoints2D_spec ::
  "env \<Rightarrow> loc \<Rightarrow> loc \<Rightarrow> string option \<Rightarrow> string option \<Rightarrow> validation" where
  \<comment> \<open>Modelled from the spec: \<open>valGetShapepoints2D\<close>, which turns down a malformed
      location and an unsupported pairing of route type and data provider\<close>
  "valGetShapepoints2D_spec env startLoc endLoc routeType dataProvider =
     (if \<not> wellformedLoc startLoc \<or> \<not> wellformedLoc endLoc
        then (False, malformedLocation, [])
      else if \<not> recognizedPairing env (map_option lower routeType) (map_option lower dataProvider)
        then (False, unsupportedCombination, [])
      else (True, [], []))"

text \<open>
  Two locations that match in their coordinates: the same latitude, longitude and
  altitude, where a location of two components has the altitude 0 (section 3, and the
  documentation of \<open>startLoc\<close> and \<open>endLoc\<close>). \<open>[1, 2]\<close> and \<open>[1, 2, 0]\<close> match and are
  different lists.
\<close>

definition altitudeOf :: "loc \<Rightarrow> real" where
  "altitudeOf l = (if length l = 3 then l ! 2 else 0)"

definition coordinateMatch :: "loc \<Rightarrow> loc \<Rightarrow> bool" where
  "coordinateMatch a b = (a ! 0 = b ! 0 \<and> a ! 1 = b ! 1 \<and> altitudeOf a = altitudeOf b)"

text \<open>
  A second distance for examples with round numbers: the degrees of latitude plus the
  degrees of longitude between two points.
\<close>

definition taxicab :: "loc \<Rightarrow> loc \<Rightarrow> real" where
  "taxicab a b = \<bar>a ! 0 - b ! 0\<bar> + \<bar>a ! 1 - b ! 1\<bar>"

text \<open>
  The first two components of a location, and the boundary of a polygon: its vertices
  and the points of its edges.
\<close>

definition flat :: "loc \<Rightarrow> loc" where
  "flat p = [p ! 0, p ! 1]"

definition onBoundary :: "loc \<Rightarrow> loc list \<Rightarrow> bool" where
  "onBoundary p poly = (p \<in> set poly \<or> (\<exists>(a, b) \<in> set (polyEdges poly). onSegment p a b))"

text \<open>
  What the claim on \<open>getConvexHull\<close> says the result is: for each hull vertex, in hull
  order, every input location within 0.0001 degrees of it in latitude and in longitude.
\<close>

definition nearTo :: "loc \<Rightarrow> loc \<Rightarrow> bool" where
  "nearTo c l = (\<bar>c ! 0 - l ! 0\<bar> < 1 / 10000 \<and> \<bar>c ! 1 - l ! 1\<bar> < 1 / 10000)"

definition rematch :: "loc list \<Rightarrow> loc list \<Rightarrow> loc list" where
  "rematch ch2D locs = concat (map (\<lambda>c. filter (nearTo c) locs) ch2D)"

text \<open>
  A point strictly inside a triangle (so no vertex of a convex hull), and an input of
  four locations, the last of which is inside the triangle of the first three and
  within the tolerance of the first.
\<close>

definition cross :: "loc \<Rightarrow> loc \<Rightarrow> loc \<Rightarrow> real" where
  "cross a b p = (b ! 0 - a ! 0) * (p ! 1 - a ! 1) - (b ! 1 - a ! 1) * (p ! 0 - a ! 0)"

definition strictlyInsideTriangle :: "loc \<Rightarrow> loc \<Rightarrow> loc \<Rightarrow> loc \<Rightarrow> bool" where
  "strictlyInsideTriangle p a b c =
     ((0 < cross a b p \<and> 0 < cross b c p \<and> 0 < cross c a p) \<or>
      (cross a b p < 0 \<and> cross b c p < 0 \<and> cross c a p < 0))"

definition locs4 :: "loc list" where
  "locs4 = [[0, 0], [0, 1], [1, 0], [1 / 20000, 1 / 20000]]"




section \<open>Basic facts\<close>

lemma pbind_Inr [simp]: "pbind (Inr x) f = f x"
  by (simp add: pbind_def)

lemma pbind_Inl [simp]: "pbind (Inl e) f = Inl e"
  by (simp add: pbind_def)

lemma pbind_eq_Inr: "pbind m f = Inr y \<longleftrightarrow> (\<exists>x. m = Inr x \<and> f x = Inr y)"
  by (cases m) simp_all

lemma subscript_eq_Inr: "subscript xs i = Inr x \<longleftrightarrow> i < length xs \<and> x = xs ! i"
  by (auto simp: subscript_def)

lemma validated_accepts:
  "validated env (True, e, w) early body =
     body (if VRV_SETTING_SHOWWARNINGMESSAGE env \<and> w \<noteq> [] then [WarningMsg w] else [])"
  by (simp add: validated_def)

lemma validated_rejects:
  "validated env (False, e, w) early body = ([ErrorMsg e], Inr early)"
  by (simp add: validated_def)

lemma lower_manhattan: "lower ''manhattan'' = ''manhattan''"
  by code_simp

lemma geoDistance2D_spec_coincident:
  "a ! 0 = b ! 0 \<Longrightarrow> a ! 1 = b ! 1 \<Longrightarrow> geoDistance2D_spec a b = 0"
  by (simp add: geoDistance2D_spec_def)

lemma oneDegree_neq_0 [simp]: "oneDegree \<noteq> 0"
  by (simp add: oneDegree_def)

lemma geoDistance2D_spec_one_degree_north:
  "geoDistance2D_spec [0, 0] [1, 0] = oneDegree"
proof -
  have "arcsin (sin (pi / 360)) = pi / 360"
    by (rule arcsin_sin) (use pi_gt_zero in auto)
  moreover have "0 \<le> sin (pi / 360)"
    by (rule sin_ge_zero) (use pi_gt_zero in auto)
  ultimately show ?thesis
    by (simp add: geoDistance2D_spec_def oneDegree_def Let_def)
qed

lemma take2_nth:
  assumes "take 2 a = take 2 b"
  shows "a ! 0 = b ! 0" and "a ! 1 = (b ! 1 :: 'a)"
proof -
  have "take 2 a ! 0 = a ! 0" "take 2 a ! 1 = a ! 1" "take 2 b ! 0 = b ! 0" "take 2 b ! 1 = b ! 1"
    by simp_all
  with assms show "a ! 0 = b ! 0" and "a ! 1 = b ! 1"
    by simp_all
qed

section \<open>The grid rule\<close>

lemma manCorner_wellformed:
  "2 \<le> length startLoc \<Longrightarrow> 2 \<le> length endLoc \<Longrightarrow>
   manCorner startLoc endLoc verticalFirst =
     Inr (if verticalFirst then [endLoc ! 0, startLoc ! 1] else [startLoc ! 0, endLoc ! 1])"
  by (auto simp: manCorner_def subscript_def)

lemma manCorner_eq_Inr:
  "manCorner startLoc endLoc verticalFirst = Inr corner \<Longrightarrow>
   corner = (if verticalFirst then [endLoc ! 0, startLoc ! 1] else [startLoc ! 0, endLoc ! 1])"
  by (auto simp: manCorner_def pbind_eq_Inr subscript_eq_Inr split: if_splits)

lemma manhattan_zero_length:
  assumes "\<forall>a b. take 2 a = take 2 b \<longrightarrow> geoDistance2D env a b = 0"
    and "2 \<le> length startLoc" and "2 \<le> length endLoc"
    and "take 2 startLoc = take 2 endLoc"
  shows "manGetShapepointsTimeDist env startLoc endLoc speedMPS (Some D) verticalFirst
           = Inl ZeroDivisionError"
proof -
  let ?corner = "if verticalFirst then [endLoc ! 0, startLoc ! 1] else [startLoc ! 0, endLoc ! 1]"
  have same: "startLoc ! 0 = endLoc ! 0" "startLoc ! 1 = endLoc ! 1"
    using take2_nth [OF assms(4)] by simp_all
  have "take 2 startLoc = ?corner"
    using assms(2) same by (cases startLoc; cases "tl startLoc") auto
  moreover have "take 2 endLoc = ?corner"
    using assms(3) same by (cases endLoc; cases "tl endLoc") auto
  ultimately have "geoDistance2D env startLoc ?corner = 0" "geoDistance2D env ?corner endLoc = 0"
    using assms(1) by simp_all
  then show ?thesis
    using manCorner_wellformed [OF assms(2,3), of verticalFirst]
    by (simp add: manGetShapepointsTimeDist_def py_div_def Let_def)
qed

text \<open>
  C4. The claim: for every accepted input the time computation divides by no zero, and
  in particular the grid split \<open>expDurationSec * dist[i] / (dist[1] + dist[2])\<close> is
  always well defined. The code divides without a test: when the two endpoints have
  the same latitude and longitude and differ as lists (in altitude, or in having
  one), both grid lengths are zero and the split raises \<open>ZeroDivisionError\<close>, for
  every distance function that is zero between points of equal latitude and longitude.
\<close>

theorem manhattan_split_zero_length_raises:
  assumes "\<forall>a b. take 2 a = take 2 b \<longrightarrow> geoDistance2D env a b = 0"
    and "2 \<le> length startLoc" and "2 \<le> length endLoc"
    and "take 2 startLoc = take 2 endLoc"
  shows "manGetShapepointsTimeDist env startLoc endLoc speedMPS (Some D) verticalFirst
           = Inl ZeroDivisionError"
  using assms by (rule manhattan_zero_length)

theorem manhattan_split_zero_length_raises_witness:
  "manGetShapepointsTimeDist env0 [0, 0, 0] [0, 0, 100] (Some 1) (Some 10) True
     = Inl ZeroDivisionError"
proof -
  have "\<forall>a b. take 2 a = take 2 b \<longrightarrow> geoDistance2D env0 a b = 0"
    by (auto simp: env0_def intro: geoDistance2D_spec_coincident dest: take2_nth)
  from manhattan_split_zero_length_raises [OF this, of "[0, 0, 0]" "[0, 0, 100]"]
  show ?thesis by simp
qed

text \<open>
  C5. The claim: in grid mode with distinct start and end, a supplied duration \<open>D\<close> is
  split into the times \<open>D * len1 / (len1 + len2)\<close> and \<open>D * len2 / (len1 + len2)\<close>, where
  \<open>len1\<close> and \<open>len2\<close> are the geodesic lengths of the two segments, and they sum to \<open>D\<close>;
  with no duration each time is the segment's length divided by \<open>speedMPS\<close>. The code
  computes these quotients with no test: where \<open>len1 + len2\<close> is not zero the times are
  those of the claim, and where it is zero the first division raises
  \<open>ZeroDivisionError\<close> and no times are returned. That is so between \<open>[0, 0, 0]\<close> and
  \<open>[0, 0, 100]\<close>, which are distinct and have the same latitude and longitude.
\<close>

theorem manhattan_split_cases:
  assumes "manCorner startLoc endLoc verticalFirst = Inr corner"
    and "len1 = geoDistance2D env startLoc corner"
    and "len2 = geoDistance2D env corner endLoc"
  shows "manGetShapepointsTimeDist env startLoc endLoc speedMPS (Some D) verticalFirst
           = (if len1 + len2 = 0 then Inl ZeroDivisionError
              else Inr ([startLoc, corner, endLoc],
                        [0, D * len1 / (len1 + len2), D * len2 / (len1 + len2)],
                        [0, len1, len2]))
       \<and> (len1 + len2 \<noteq> 0 \<longrightarrow> D * len1 / (len1 + len2) + D * len2 / (len1 + len2) = D)
       \<and> manGetShapepointsTimeDist env startLoc endLoc speedMPS None verticalFirst
           = (case speedMPS of
                None \<Rightarrow> Inl TypeError
              | Some v \<Rightarrow>
                  if v = 0 then Inl ZeroDivisionError
                  else Inr ([startLoc, corner, endLoc], [0, len1 / v, len2 / v],
                            [0, len1, len2]))"
proof -
  have "len1 + len2 \<noteq> 0 \<Longrightarrow> D * len1 / (len1 + len2) + D * len2 / (len1 + len2) = D"
    by (simp add: add_divide_distrib [symmetric] distrib_left [symmetric])
  then show ?thesis
    using assms
    by (simp add: manGetShapepointsTimeDist_def py_div_def Let_def split: option.splits)
qed

theorem manhattan_split_cases_witness:
  "[0, 0, 0] \<noteq> [0, 0, 100 :: real]
   \<and> manGetShapepointsTimeDist env0 [0, 0, 0] [0, 0, 100] None (Some 10) True
       = Inl ZeroDivisionError
   \<and> manGetShapepointsTimeDist (env0\<lparr>geoDistance2D := taxicab\<rparr>) [0, 0] [1, 2] None (Some 9) True
       = Inr ([[0, 0], [1, 0], [1, 2]], [0, 3, 6], [0, 1, 2])
   \<and> manGetShapepointsTimeDist (env0\<lparr>geoDistance2D := taxicab\<rparr>) [0, 0] [1, 2] (Some 2) None True
       = Inr ([[0, 0], [1, 0], [1, 2]], [0, 1 / 2, 1], [0, 1, 2])"
proof -
  have c0: "manCorner [0, 0, 0] [0, 0, 100] True = Inr [0, 0]"
    by (simp add: manCorner_def subscript_def)
  have z: "0 = geoDistance2D env0 [0, 0, 0] [0, 0]" "0 = geoDistance2D env0 [0, 0] [0, 0, 100]"
    by (simp_all add: env0_def geoDistance2D_spec_coincident)
  have c: "manCorner [0, 0] [1, 2] True = Inr [1, 0]"
    by (simp add: manCorner_def subscript_def)
  have l: "1 = geoDistance2D (env0\<lparr>geoDistance2D := taxicab\<rparr>) [0, 0] [1, 0]"
    "2 = geoDistance2D (env0\<lparr>geoDistance2D := taxicab\<rparr>) [1, 0] [1, 2]"
    by (simp_all add: taxicab_def)
  from manhattan_split_cases [OF c0 z, of None 10]
  have 1: "manGetShapepointsTimeDist env0 [0, 0, 0] [0, 0, 100] None (Some 10) True
       = Inl ZeroDivisionError"
    by simp
  from manhattan_split_cases [OF c l, of None 9]
  have 2: "manGetShapepointsTimeDist (env0\<lparr>geoDistance2D := taxicab\<rparr>) [0, 0] [1, 2] None
       (Some 9) True = Inr ([[0, 0], [1, 0], [1, 2]], [0, 3, 6], [0, 1, 2])"
    by simp
  from manhattan_split_cases [OF c l, of "Some 2" 9]
  have 3: "manGetShapepointsTimeDist (env0\<lparr>geoDistance2D := taxicab\<rparr>) [0, 0] [1, 2] (Some 2)
       None True = Inr ([[0, 0], [1, 0], [1, 2]], [0, 1 / 2, 1], [0, 1, 2])"
    by simp
  from 1 2 3 show ?thesis
    by simp
qed

text \<open>
  C6. The claim: the grid path is \<open>[start, corner, end]\<close> and, in the default
  configuration, the corner shares the latitude of the start and the longitude of the
  end. The code does the opposite: a location is \<open>[lat, lon]\<close>, and with
  \<open>verticalFirst\<close> (the default, ``go north/south first'') the corner is
  \<open>[endLoc[0], startLoc[1]]\<close>. From \<open>[0, 0]\<close> to \<open>[1, 1]\<close> the corner is \<open>[1, 0]\<close>.
\<close>

theorem manhattan_default_corner_counterexample:
  "manGetShapepointsTimeDist env0 [0, 0] [1, 1] (Some 1) None True
     = Inr ([[0, 0], [1, 0], [1, 1]],
            [0, geoDistance2D env0 [0, 0] [1, 0], geoDistance2D env0 [1, 0] [1, 1]],
            [0, geoDistance2D env0 [0, 0] [1, 0], geoDistance2D env0 [1, 0] [1, 1]])
   \<and> \<not> sharesStartLatEndLon [0, 0] [1, 1] [1, 0]"
  by (simp add: manGetShapepointsTimeDist_def manCorner_def subscript_def py_div_def
      sharesStartLatEndLon_def Let_def)

text \<open>
  C6, amended. The grid path is \<open>[start, corner, end]\<close>; with \<open>verticalFirst\<close> (the
  default) the corner shares the longitude of the start and the latitude of the end,
  and without it the corner shares the latitude of the start and the longitude of the
  end.
\<close>

theorem manhattan_corner:
  assumes "manGetShapepointsTimeDist env startLoc endLoc speedMPS expDurationSec verticalFirst
             = Inr (path, ts, ds)"
  shows "\<exists>corner. path = [startLoc, corner, endLoc] \<and> length corner = 2
           \<and> (verticalFirst \<longrightarrow> sharesStartLonEndLat startLoc endLoc corner)
           \<and> (\<not> verticalFirst \<longrightarrow> sharesStartLatEndLon startLoc endLoc corner)"
proof -
  from assms obtain corner where c: "manCorner startLoc endLoc verticalFirst = Inr corner"
    by (auto simp: manGetShapepointsTimeDist_def pbind_eq_Inr)
  with assms have "path = [startLoc, corner, endLoc]"
    by (auto simp: manGetShapepointsTimeDist_def pbind_eq_Inr Let_def split: option.splits)
  with manCorner_eq_Inr [OF c] show ?thesis
    by (auto simp: sharesStartLonEndLat_def sharesStartLatEndLon_def)
qed

theorem manhattan_corner_witness:
  "sharesStartLonEndLat [0, 0] [1, 1] [1, 0] \<and> sharesStartLatEndLon [0, 0] [1, 1] [0, 1]"
proof -
  have "manGetShapepointsTimeDist env0 [0, 0] [1, 1] (Some 1) None True
     = Inr ([[0, 0], [1, 0], [1, 1]],
            [0, geoDistance2D env0 [0, 0] [1, 0], geoDistance2D env0 [1, 0] [1, 1]],
            [0, geoDistance2D env0 [0, 0] [1, 0], geoDistance2D env0 [1, 0] [1, 1]])"
    by (simp add: manGetShapepointsTimeDist_def manCorner_def subscript_def py_div_def Let_def)
  from manhattan_corner [OF this] have 1: "sharesStartLonEndLat [0, 0] [1, 1] [1, 0]"
    by auto
  have "manGetShapepointsTimeDist env0 [0, 0] [1, 1] (Some 1) None False
     = Inr ([[0, 0], [0, 1], [1, 1]],
            [0, geoDistance2D env0 [0, 0] [0, 1], geoDistance2D env0 [0, 1] [1, 1]],
            [0, geoDistance2D env0 [0, 0] [0, 1], geoDistance2D env0 [0, 1] [1, 1]])"
    by (simp add: manGetShapepointsTimeDist_def manCorner_def subscript_def py_div_def Let_def)
  from manhattan_corner [OF this] have 2: "sharesStartLatEndLon [0, 0] [1, 1] [0, 1]"
    by auto
  from 1 2 show ?thesis ..
qed

section \<open>getShapepoints2D: the results\<close>

text \<open>
  C1. The claim: for every accepted call with \<open>startLoc != endLoc\<close> and an
  \<open>expDurationSec\<close>, the times are redistributed so that the last row ends at
  \<open>startTimeSec + expDurationSec\<close>. For the route type \<open>'manhattan'\<close> and two locations
  of the documented form that have the same latitude and longitude and differ as lists
  (in altitude, or in having one), such a call ends in the \<open>ZeroDivisionError\<close> of the
  grid split, before any redistribution, for every distance function that is zero
  between points of equal latitude and longitude.
\<close>

theorem getShapepoints2D_zero_length_manhattan_raises:
  assumes "fst val" and "startLoc \<noteq> endLoc"
    and "\<forall>a b. take 2 a = take 2 b \<longrightarrow> geoDistance2D env a b = 0"
    and "2 \<le> length startLoc" and "2 \<le> length endLoc"
    and "take 2 startLoc = take 2 endLoc"
    and "map_option lower routeType = Some ''manhattan''"
  shows "snd (getShapepoints2D env val oid obj mf startLoc endLoc t0 (Some D) routeType
                speedMPS st dataProvider dataProviderArgs) = Inl ZeroDivisionError"
proof -
  obtain e w where val: "val = (True, e, w)"
    using assms(1) by (cases val) auto
  have "selectRoute env startLoc endLoc speedMPS (Some D) (Some ''manhattan'')
          (map_option lower dataProvider) dataProviderArgs = Inl ZeroDivisionError"
    by (simp add: selectRoute_def manhattan_zero_length [OF assms(3,4,5,6)])
  then show ?thesis
    unfolding val getShapepoints2D_def validated_accepts
    using assms(2) by (simp add: assms(7) Let_def)
qed

theorem getShapepoints2D_zero_length_manhattan_raises_witness:
  "getShapepoints2D env0 (True, [], []) 1 None None [0, 0, 0] [0, 0, 100] 0 (Some 10)
     (Some ''manhattan'') (Some 1) style0 None None = ([], Inl ZeroDivisionError)"
proof -
  have gd: "\<forall>a b. take 2 a = take 2 b \<longrightarrow> geoDistance2D env0 a b = 0"
    by (auto simp: env0_def intro: geoDistance2D_spec_coincident dest: take2_nth)
  have ne: "[0, 0, 0] \<noteq> [0, 0, 100 :: real]"
    by simp
  have "selectRoute env0 [0, 0, 0] [0, 0, 100] (Some 1) (Some 10) (Some ''manhattan'')
          None None = Inl ZeroDivisionError"
    by (simp add: selectRoute_def manhattan_zero_length [OF gd])
  then have "fst (getShapepoints2D env0 (True, [], []) 1 None None [0, 0, 0] [0, 0, 100] 0
     (Some 10) (Some ''manhattan'') (Some 1) style0 None None) = []"
    by (simp add: getShapepoints2D_def validated_accepts lower_manhattan Let_def)
  moreover from getShapepoints2D_zero_length_manhattan_raises [of "(True, [], [])" "[0, 0, 0]"
      "[0, 0, 100]" env0 "Some ''manhattan''" 1 None None 0 10 "Some 1" style0 None None,
      OF _ ne gd]
  have "snd (getShapepoints2D env0 (True, [], []) 1 None None [0, 0, 0] [0, 0, 100] 0 (Some 10)
     (Some ''manhattan'') (Some 1) style0 None None) = Inl ZeroDivisionError"
    by (simp add: lower_manhattan)
  ultimately show ?thesis
    by (simp add: prod_eq_iff)
qed

text \<open>
  When \<open>startLoc\<close> and \<open>endLoc\<close> are the same list, an accepted call returns exactly one
  row, whose start and end latitude, longitude and altitude are equal, which starts at
  the supplied \<open>startTimeSec\<close> and ends at \<open>startTimeSec + expDurationSec\<close>, or at
  \<open>startTimeSec\<close> when no duration is supplied.
\<close>

lemma identical_locations_single_row:
  assumes "fst val"
  shows "\<exists>row. snd (getShapepoints2D env val oid obj mf startLoc startLoc t0 expDurationSec
                      routeType speedMPS st dataProvider dataProviderArgs)
               = Inr (Some [row])
             \<and> startLat row = endLat row \<and> startLon row = endLon row
             \<and> startAltMeters row = endAltMeters row
             \<and> startTimeSec row = t0
             \<and> endTimeSec row = (case expDurationSec of Some D \<Rightarrow> t0 + D | None \<Rightarrow> t0)"
proof -
  obtain e w where val: "val = (True, e, w)"
    using assms by (cases val) auto
  show ?thesis
    unfolding val getShapepoints2D_def validated_accepts
    by (cases expDurationSec) (simp_all add: Let_def)
qed

lemma coordinateMatch_take2:
  assumes "coordinateMatch a b" and "2 \<le> length a" and "2 \<le> length b"
  shows "take 2 a = take 2 b"
proof -
  from assms(2) obtain a0 a1 as where a: "a = a0 # a1 # as"
    by (cases a; cases "tl a") auto
  from assms(3) obtain b0 b1 bs where b: "b = b0 # b1 # bs"
    by (cases b; cases "tl b") auto
  from assms(1) show ?thesis
    by (simp add: a b coordinateMatch_def)
qed

text \<open>
  C2. The claim: a call in which \<open>startLoc\<close> equals \<open>endLoc\<close> (coordinate match) returns
  exactly one row, ending at \<open>startTimeSec + expDurationSec\<close>. The code tests
  \<open>startLoc != endLoc\<close> on the lists, so two locations that match in their coordinates
  and differ as lists, as \<open>[1, 2]\<close> and \<open>[1, 2, 0]\<close> do, are routed: with the route type
  \<open>'manhattan'\<close> and a duration both grid lengths are zero and the call ends in the
  \<open>ZeroDivisionError\<close> of the grid split, with no row, for every distance function that
  is zero between points of equal latitude and longitude.
\<close>

theorem coordinate_match_manhattan_raises:
  assumes "fst val" and "coordinateMatch startLoc endLoc" and "startLoc \<noteq> endLoc"
    and "\<forall>a b. take 2 a = take 2 b \<longrightarrow> geoDistance2D env a b = 0"
    and "2 \<le> length startLoc" and "2 \<le> length endLoc"
    and "map_option lower routeType = Some ''manhattan''"
  shows "snd (getShapepoints2D env val oid obj mf startLoc endLoc t0 (Some D) routeType
                speedMPS st dataProvider dataProviderArgs) = Inl ZeroDivisionError"
proof -
  obtain e w where val: "val = (True, e, w)"
    using assms(1) by (cases val) auto
  have "take 2 startLoc = take 2 endLoc"
    using assms(2,5,6) by (rule coordinateMatch_take2)
  then have "selectRoute env startLoc endLoc speedMPS (Some D) (Some ''manhattan'')
          (map_option lower dataProvider) dataProviderArgs = Inl ZeroDivisionError"
    by (simp add: selectRoute_def manhattan_zero_length [OF assms(4,5,6)])
  then show ?thesis
    unfolding val getShapepoints2D_def validated_accepts
    using assms(3) by (simp add: assms(7) Let_def)
qed

theorem coordinate_match_manhattan_raises_witness:
  "coordinateMatch [1, 2] [1, 2, 0]
   \<and> loc2Dict env0 [1, 2] = loc2Dict env0 [1, 2, 0]
   \<and> getShapepoints2D env0 (True, [], []) 1 None None [1, 2] [1, 2, 0] 0 (Some 10)
       (Some ''manhattan'') (Some 1) style0 None None = ([], Inl ZeroDivisionError)"
proof -
  have gd: "\<forall>a b. take 2 a = take 2 b \<longrightarrow> geoDistance2D env0 a b = 0"
    by (auto simp: env0_def intro: geoDistance2D_spec_coincident dest: take2_nth)
  have cm: "coordinateMatch [1, 2] [1, 2, 0]"
    by (simp add: coordinateMatch_def altitudeOf_def)
  have ne: "[1, 2] \<noteq> [1, 2, 0 :: real]"
    by simp
  have d: "loc2Dict env0 [1, 2] = loc2Dict env0 [1, 2, 0]"
    by (simp add: env0_def loc2Dict_spec_def)
  have "selectRoute env0 [1, 2] [1, 2, 0] (Some 1) (Some 10) (Some ''manhattan'')
          None None = Inl ZeroDivisionError"
    by (simp add: selectRoute_def manhattan_zero_length [OF gd])
  then have "fst (getShapepoints2D env0 (True, [], []) 1 None None [1, 2] [1, 2, 0] 0
     (Some 10) (Some ''manhattan'') (Some 1) style0 None None) = []"
    by (simp add: getShapepoints2D_def validated_accepts lower_manhattan Let_def)
  moreover from coordinate_match_manhattan_raises [of "(True, [], [])" "[1, 2]"
      "[1, 2, 0]" env0 "Some ''manhattan''" 1 None None 0 10 "Some 1" style0 None None,
      OF _ cm ne gd]
  have "snd (getShapepoints2D env0 (True, [], []) 1 None None [1, 2] [1, 2, 0] 0 (Some 10)
     (Some ''manhattan'') (Some 1) style0 None None) = Inl ZeroDivisionError"
    by (simp add: lower_manhattan)
  ultimately show ?thesis
    using cm d by (simp add: prod_eq_iff)
qed

section \<open>Loops that append\<close>

lemma for_each_collect:
  "for_each js (\<lambda>i acc. pbind (f i) (\<lambda>x. Inr (acc @ [x]))) acc0 = Inr r \<Longrightarrow>
   \<exists>ys. r = acc0 @ ys \<and> map f js = map Inr ys"
proof (induction js arbitrary: acc0)
  case Nil
  then show ?case by simp
next
  case (Cons i js)
  from Cons.prems obtain x where x: "f i = Inr x"
    and rest: "for_each js (\<lambda>i acc. pbind (f i) (\<lambda>x. Inr (acc @ [x]))) (acc0 @ [x]) = Inr r"
    by (cases "f i") auto
  from Cons.IH [OF rest] obtain ys where "r = (acc0 @ [x]) @ ys" "map f js = map Inr ys"
    by blast
  with x have "r = acc0 @ (x # ys) \<and> map f (i # js) = map Inr (x # ys)"
    by simp
  then show ?case by blast
qed

lemma accumulate_loop_prefix:
  "for_each js (\<lambda>i acc. pbind (subscript acc (i - 1)) (\<lambda>a.
                          pbind (subscript xs i) (\<lambda>x. Inr (acc @ [a + x])))) acc0 = Inr r \<Longrightarrow>
   \<exists>ys. r = acc0 @ ys \<and> length ys = length js"
proof (induction js arbitrary: acc0)
  case Nil
  then show ?case by simp
next
  case (Cons i js)
  let ?body = "\<lambda>i acc. pbind (subscript acc (i - 1)) (\<lambda>a.
                 pbind (subscript xs i) (\<lambda>x. Inr (acc @ [a + x])))"
  from Cons.prems obtain acc1 where 1: "?body i acc0 = Inr acc1"
    and rest: "for_each js ?body acc1 = Inr r"
    by (cases "?body i acc0") auto
  from 1 obtain y where acc1: "acc1 = acc0 @ [y]"
    by (auto simp: pbind_eq_Inr)
  from Cons.IH [OF rest] obtain ys where "r = acc1 @ ys" "length ys = length js"
    by blast
  with acc1 have "r = acc0 @ (y # ys) \<and> length (y # ys) = length (i # js)"
    by simp
  then show ?case by blast
qed

lemma accumulate_first:
  assumes "accumulate init n xs = Inr acc"
  shows "acc \<noteq> [] \<and> acc ! 0 = init"
  using accumulate_loop_prefix [OF assms [unfolded accumulate_def]] by auto

lemma assignmentRow_eq_Inr:
  assumes "assignmentRow oid obj mf st accTime dicPath i = Inr row"
  shows "startTimeSec row = accTime ! (i - 1) \<and> endTimeSec row = accTime ! i
       \<and> startLat row = lat (dicPath ! (i - 1)) \<and> endLat row = lat (dicPath ! i)
       \<and> startLon row = lon (dicPath ! (i - 1)) \<and> endLon row = lon (dicPath ! i)
       \<and> startAltMeters row = alt (dicPath ! (i - 1)) \<and> endAltMeters row = alt (dicPath ! i)"
  using assms by (auto simp: assignmentRow_def pbind_eq_Inr subscript_eq_Inr)

lemma rows_loop_contiguous:
  assumes acc: "accTime \<noteq> [] \<and> accTime ! 0 = t0"
    and loop: "for_each [1..<n]
                 (\<lambda>i assignments. pbind (assignmentRow oid obj mf st accTime dicPath i)
                                     (\<lambda>row. Inr (assignments @ [row]))) [] = Inr rows"
  shows "contiguous t0 rows"
proof -
  from for_each_collect [OF loop]
  have m: "map (assignmentRow oid obj mf st accTime dicPath) [1..<n] = map Inr rows"
    by simp
  then have len: "length rows = n - 1"
    by (metis length_map length_upt)
  have row: "assignmentRow oid obj mf st accTime dicPath (Suc k) = Inr (rows ! k)"
    if "k < length rows" for k
  proof -
    from that len have kn: "k < length [1..<n]" by simp
    have "assignmentRow oid obj mf st accTime dicPath (Suc k)
      = assignmentRow oid obj mf st accTime dicPath ([1..<n] ! k)"
      using that len by simp
    also have "\<dots> = map (assignmentRow oid obj mf st accTime dicPath) [1..<n] ! k"
      using kn by (rule nth_map [symmetric])
    also have "\<dots> = map Inr rows ! k"
      by (simp only: m)
    also have "\<dots> = Inr (rows ! k)"
      using that by simp
    finally show ?thesis .
  qed
  show ?thesis
    unfolding contiguous_def
  proof (intro conjI impI allI)
    assume "rows \<noteq> []"
    then have "0 < length rows" by simp
    from assignmentRow_eq_Inr [OF row [OF this]] acc
    show "startTimeSec (rows ! 0) = t0" by simp
  next
    fix k assume k: "Suc k < length rows"
    then have k': "k < length rows" by simp
    from assignmentRow_eq_Inr [OF row [OF k]] assignmentRow_eq_Inr [OF row [OF k']]
    show "endTimeSec (rows ! k) = startTimeSec (rows ! Suc k)"
      and "endLat (rows ! k) = startLat (rows ! Suc k)"
      and "endLon (rows ! k) = startLon (rows ! Suc k)"
      by simp_all
  qed
qed

lemma getShapepoints2D_rows_cases:
  assumes "snd (getShapepoints2D env val oid obj mf startLoc endLoc t0 expDurationSec routeType
             speedMPS st dataProvider dataProviderArgs) = Inr (Some rows)"
  shows "(startLoc = endLoc \<and> (\<exists>row. rows = [row] \<and> startTimeSec row = t0))
       \<or> (\<exists>path ts (ds :: real list) accTime mf'.
            accumulate t0 (length ds) ts = Inr accTime \<and>
            for_each [1..<length path]
              (\<lambda>i assignments. pbind (assignmentRow oid obj mf' st accTime (locs2Dict env path) i)
                                  (\<lambda>row. Inr (assignments @ [row]))) [] = Inr rows)"
proof -
  obtain v e w where val: "val = (v, e, w)" by (cases val) auto
  show ?thesis
  proof (cases v)
    case False
    with assms val show ?thesis
      by (simp add: getShapepoints2D_def validated_def)
  next
    case True
    show ?thesis
    proof (cases "startLoc = endLoc")
      case same: True
      with assms val \<open>v\<close> have "\<exists>row. [row] = rows \<and> startTimeSec row = t0"
        by (simp add: getShapepoints2D_def validated_def Let_def split: if_splits)
           (rule exI, rule conjI, assumption, simp)+
      with same show ?thesis by blast
    next
      case diff: False
      with assms val \<open>v\<close> show ?thesis
        by (auto simp: getShapepoints2D_def validated_def Let_def pbind_eq_Inr
            split: sum.splits option.splits prod.splits if_splits)
           (intro exI conjI, assumption+)+
    qed
  qed
qed

lemma upt_1_3: "[1..<3] = [1, 2]"
  by (simp add: upt_rec)

lemma manhattan_one_degree_north:
  "manGetShapepointsTimeDist env0 [0, 0] [1, 0] (Some 1) None True
     = Inr ([[0, 0], [1, 0], [1, 0]], [0, oneDegree, 0], [0, oneDegree, 0])"
  by (simp add: manGetShapepointsTimeDist_def manCorner_def subscript_def py_div_def Let_def
      env0_def geoDistance2D_spec_one_degree_north geoDistance2D_spec_coincident)

lemma retime_one_degree_north:
  "retime env0 [[0, 0], [1, 0], [1, 0]] [0, oneDegree, 0] [0, oneDegree, 0]
     (Some 1) None
     = Inr ([0, oneDegree, 0], [0, oneDegree, 0])"
  by (simp add: retime_def accumulate_def upt_1_3 subscript_def py_div_def env0_def
      distributeTimeDist_spec_def segmentLengths_def Let_def
      geoDistance2D_spec_one_degree_north geoDistance2D_spec_coincident)

lemma env0_fields:
  "locs2Dict env0 = map loc2Dict_spec"
  "loc2Dict env0 = loc2Dict_spec"
  "replaceBackslashToSlash env0 None = None"
  "VRV_SETTING_SHOWWARNINGMESSAGE env0"
  "VRV_DEFAULT_DISTANCE_ERROR_TOLERANCE env0 = 10"
  by (simp_all add: env0_def)

text \<open>
  C8. Every dataframe that \<open>getShapepoints2D\<close> returns is contiguous: the first row
  starts at the supplied \<open>startTimeSec\<close>, and each row ends, in time, latitude and
  longitude, where the next one starts.
\<close>

theorem rows_contiguous:
  assumes "snd (getShapepoints2D env val oid obj mf startLoc endLoc t0 expDurationSec routeType
             speedMPS st dataProvider dataProviderArgs) = Inr (Some rows)"
  shows "contiguous t0 rows"
  using getShapepoints2D_rows_cases [OF assms]
proof (elim disjE exE conjE)
  fix row assume "rows = [row]" "startTimeSec row = t0"
  then show ?thesis by (simp add: contiguous_def)
next
  fix path ts and ds :: "real list" and accTime mf'
  assume "accumulate t0 (length ds) ts = Inr accTime"
    and "for_each [1..<length path]
              (\<lambda>i assignments. pbind (assignmentRow oid obj mf' st accTime (locs2Dict env path) i)
                                  (\<lambda>row. Inr (assignments @ [row]))) [] = Inr rows"
  then show ?thesis
    using rows_loop_contiguous accumulate_first by blast
qed


theorem rows_contiguous_witness:
  "\<exists>rows. snd (getShapepoints2D env0 (True, [], []) 1 None None [0, 0] [1, 0] 0 None
                 (Some ''manhattan'') (Some 1) style0 None None) = Inr (Some rows)
          \<and> length rows = 2 \<and> contiguous 0 rows"
proof -
  have sel: "selectRoute env0 [0, 0] [1, 0] (Some 1) None (Some ''manhattan'') None None
      = Inr (Some ([[0, 0], [1, 0], [1, 0]], [0, oneDegree, 0],
                   [0, oneDegree, 0]))"
    by (simp add: selectRoute_def manhattan_one_degree_north)
  have adv: "advisory env0 mk l 0 = Inr []" for mk l
    by (simp add: advisory_def env0_def)
  have gd: "geoDistance2D env0 [0, 0] [0, 0] = 0" "geoDistance2D env0 [1, 0] [1, 0] = 0"
    by (simp_all add: env0_def geoDistance2D_spec_coincident)
  obtain rows where rows: "snd (getShapepoints2D env0 (True, [], []) 1 None None [0, 0] [1, 0] 0
      None (Some ''manhattan'') (Some 1) style0 None None) = Inr (Some rows)"
    and len: "length rows = 2"
    by (simp add: getShapepoints2D_def validated_def lower_manhattan sel subscript_def
        subscript_last_def gd adv retime_one_degree_north accumulate_def upt_1_3
        assignmentRow_def Let_def env0_fields)
  from rows_contiguous [OF rows] rows len show ?thesis by blast
qed

section \<open>Route types without a branch\<close>

lemma selectRoute_unrecognized:
  assumes "\<not> recognizedPairing env routeType dataProvider"
  shows "selectRoute env startLoc endLoc speedMPS expDurationSec routeType dataProvider
           dataProviderArgs
         = (if needsProvider routeType \<and> dataProviderDictionary env dataProvider = None
            then Inl KeyError else Inr None)"
  using assms
  by (cases "dataProviderDictionary env dataProvider")
     (auto simp: selectRoute_def recognizedPairing_def needsProvider_def providerIs_def)

lemma lower_cycling: "lower ''cycling'' = ''cycling''"
  by code_simp

lemma lower_mapquest: "lower ''MapQuest'' = ''mapquest''"
  by code_simp

lemma env0_dictionary:
  "dataProviderDictionary env0 (Some ''mapquest'') = Some ''mapquest''"
  "dataProviderDictionary env0 (Some ''google'') = None"
  by (simp_all add: env0_def)

lemma cycling_mapquest_unrecognized:
  "\<not> recognizedPairing env0 (Some ''cycling'') (Some ''mapquest'')"
  by (simp add: recognizedPairing_def env0_def)

text \<open>
  C3. A call whose pairing of route type and data provider is not one of those the
  function has a branch for signals an explicit condition and produces no rows: the
  validator turns the call down, and the function prints the validator's message and
  returns nothing, before the locations are compared and before any route is asked
  for. When the two locations are well formed the message is the one of the
  unsupported combination.
\<close>

theorem unrecognized_pairing_signalled:
  assumes "\<not> recognizedPairing env (map_option lower routeType) (map_option lower dataProvider)"
  shows "\<exists>e. e \<noteq> []
           \<and> getShapepoints2D env
               (valGetShapepoints2D_spec env startLoc endLoc routeType dataProvider)
               oid obj mf startLoc endLoc t0 expDurationSec routeType speedMPS st dataProvider
               dataProviderArgs
             = ([ErrorMsg e], Inr None)
           \<and> (wellformedLoc startLoc \<and> wellformedLoc endLoc \<longrightarrow> e = unsupportedCombination)"
proof (cases "wellformedLoc startLoc \<and> wellformedLoc endLoc")
  case True
  with assms have "valGetShapepoints2D_spec env startLoc endLoc routeType dataProvider
      = (False, unsupportedCombination, [])"
    by (simp add: valGetShapepoints2D_spec_def)
  then have "getShapepoints2D env
               (valGetShapepoints2D_spec env startLoc endLoc routeType dataProvider)
               oid obj mf startLoc endLoc t0 expDurationSec routeType speedMPS st dataProvider
               dataProviderArgs
             = ([ErrorMsg unsupportedCombination], Inr None)"
    by (simp add: getShapepoints2D_def validated_rejects)
  moreover have "unsupportedCombination \<noteq> []"
    by (simp add: unsupportedCombination_def)
  ultimately show ?thesis
    by blast
next
  case False
  then have "valGetShapepoints2D_spec env startLoc endLoc routeType dataProvider
      = (False, malformedLocation, [])"
    by (auto simp: valGetShapepoints2D_spec_def)
  then have "getShapepoints2D env
               (valGetShapepoints2D_spec env startLoc endLoc routeType dataProvider)
               oid obj mf startLoc endLoc t0 expDurationSec routeType speedMPS st dataProvider
               dataProviderArgs
             = ([ErrorMsg malformedLocation], Inr None)"
    by (simp add: getShapepoints2D_def validated_rejects)
  moreover have "malformedLocation \<noteq> []"
    by (simp add: malformedLocation_def)
  ultimately show ?thesis
    using False by blast
qed

theorem unrecognized_pairing_signalled_witness:
  "getShapepoints2D env0
     (valGetShapepoints2D_spec env0 [1, 2] [3, 4] (Some ''cycling'') (Some ''MapQuest''))
     1 None None [1, 2] [3, 4] 0 None (Some ''cycling'') None style0 (Some ''MapQuest'') None
     = ([ErrorMsg unsupportedCombination], Inr None)
   \<and> getShapepoints2D env0
     (valGetShapepoints2D_spec env0 [1, 2] [1, 2] (Some ''cycling'') (Some ''MapQuest''))
     1 None None [1, 2] [1, 2] 0 None (Some ''cycling'') None style0 (Some ''MapQuest'') None
     = ([ErrorMsg unsupportedCombination], Inr None)"
proof -
  have u: "\<not> recognizedPairing env0 (map_option lower (Some ''cycling''))
             (map_option lower (Some ''MapQuest''))"
    by (simp add: lower_cycling lower_mapquest cycling_mapquest_unrecognized)
  have w: "wellformedLoc [1, 2]" "wellformedLoc [3, 4]"
    by (simp_all add: wellformedLoc_def)
  from unrecognized_pairing_signalled [OF u, of "[1, 2]" "[3, 4]" 1 None None 0 None None
      style0 None]
    unrecognized_pairing_signalled [OF u, of "[1, 2]" "[1, 2]" 1 None None 0 None None
      style0 None]
  show ?thesis
    using w by auto
qed

section \<open>isPointInPoly\<close>

lemma for_each_extends:
  "(\<And>i acc. i \<in> set js \<Longrightarrow> body i acc = Inr (acc @ g i)) \<Longrightarrow>
   for_each js body acc0 = Inr (acc0 @ concat (map g js))"
  by (induction js arbitrary: acc0) simp_all

lemma map_nth_upt: "map (\<lambda>i. f (xs ! i)) [0..<length xs] = map f xs"
proof -
  have "map (\<lambda>i. f (xs ! i)) [0..<length xs] = map f (map ((!) xs) [0..<length xs])"
    by simp
  then show ?thesis by (simp only: map_nth)
qed

lemma project2D_wellformed:
  assumes "\<forall>p \<in> set xs. 2 \<le> length p"
  shows "project2D xs = Inr (map flat xs)"
proof -
  have "for_each [0..<length xs]
       (\<lambda>i out. pbind (subscript xs i) (\<lambda>p.
                 pbind (subscript p 0) (\<lambda>a. pbind (subscript p 1) (\<lambda>b. Inr (out @ [[a, b]])))))
       [] = Inr ([] @ concat (map (\<lambda>i. [flat (xs ! i)]) [0..<length xs]))"
  proof (rule for_each_extends)
    fix i acc assume "i \<in> set [0..<length xs]"
    then have i: "i < length xs" by simp
    with assms have "2 \<le> length (xs ! i)" by simp
    with i show "pbind (subscript xs i) (\<lambda>p.
                 pbind (subscript p 0) (\<lambda>a. pbind (subscript p 1) (\<lambda>b. Inr (acc @ [[a, b]]))))
        = Inr (acc @ [flat (xs ! i)])"
      by (auto simp: subscript_def flat_def)
  qed
  moreover have "concat (map (\<lambda>i. [flat (xs ! i)]) [0..<length xs]) = map flat xs"
    using map_nth_upt [of flat xs] by (simp add: concat_map_singleton)
  ultimately show ?thesis
    by (simp add: project2D_def)
qed

lemma onSegment_endpoint: "onSegment a a b"
  by (simp add: onSegment_def)

lemma vertex_on_edge:
  assumes "v \<in> set poly"
  shows "\<exists>(a, b) \<in> set (polyEdges poly). onSegment v a b"
proof -
  have "length poly = length (rotate1 poly)" by simp
  from in_set_impl_in_set_zip1 [OF this assms] obtain b where "(v, b) \<in> set (polyEdges poly)"
    by (auto simp: polyEdges_def)
  then show ?thesis
    using onSegment_endpoint by blast
qed

lemma geoIsPointInPoly_spec_boundary:
  "onBoundary p poly \<Longrightarrow> geoIsPointInPoly_spec p poly"
  using vertex_on_edge [of p poly]
  by (auto simp: onBoundary_def geoIsPointInPoly_spec_def list_ex_iff)

text \<open>
  C7. For a polygon and a point of at least two components each, \<open>isPointInPoly\<close>
  answers true for every vertex of the polygon and, more generally, for every point on
  one of its edges, altitudes being ignored. \<open>geoIsPointInPoly\<close> is the ray casting of
  the specification.
\<close>

theorem boundary_is_inside:
  assumes "fst val" and "geoIsPointInPoly env = geoIsPointInPoly_spec"
    and "2 \<le> length loc" and "\<forall>p \<in> set poly. 2 \<le> length p"
  shows "(loc \<in> set poly \<or> onBoundary (flat loc) (map flat poly)) \<longrightarrow>
         snd (isPointInPoly env val loc poly) = Inr (Some True)"
proof
  assume b: "loc \<in> set poly \<or> onBoundary (flat loc) (map flat poly)"
  have "onBoundary (flat loc) (map flat poly)"
    using b by (auto simp: onBoundary_def)
  then have in_poly: "geoIsPointInPoly_spec [loc ! 0, loc ! 1] (map flat poly)"
    using geoIsPointInPoly_spec_boundary by (simp add: flat_def)
  obtain e w where val: "val = (True, e, w)"
    using assms(1) by (cases val) auto
  have "subscript loc 0 = Inr (loc ! 0)" "subscript loc 1 = Inr (loc ! 1)"
    using assms(3) by (auto simp: subscript_def)
  with in_poly show "snd (isPointInPoly env val loc poly) = Inr (Some True)"
    unfolding val isPointInPoly_def validated_accepts
    by (simp add: project2D_wellformed [OF assms(4)] assms(2) Let_def)
qed

theorem boundary_is_inside_witness:
  "snd (isPointInPoly env0 (True, [], []) [42.10, -78.10]
          [[42.00, -78.00], [42.10, -78.10], [42.00, -78.10]]) = Inr (Some True)
   \<and> snd (isPointInPoly env0 (True, [], []) [42.05, -78.10, 100]
          [[42.00, -78.00, 200], [42.10, -78.10, 300], [42.00, -78.10, 200]]) = Inr (Some True)"
proof -
  have 1: "[42.10, -78.10] \<in> set [[42.00, -78.00], [42.10, -78.10], [42.00, -78.10 :: real]]"
    by simp
  have 2: "onBoundary (flat [42.05, -78.10, 100])
             (map flat [[42.00, -78.00, 200], [42.10, -78.10, 300], [42.00, -78.10, 200]])"
    by (simp add: onBoundary_def flat_def polyEdges_def onSegment_def)
  have g: "geoIsPointInPoly env0 = geoIsPointInPoly_spec"
    by (simp add: env0_def)
  from boundary_is_inside [of "(True, [], [])" env0 "[42.10, -78.10]"
      "[[42.00, -78.00], [42.10, -78.10], [42.00, -78.10]]", OF _ g] 1
    boundary_is_inside [of "(True, [], [])" env0 "[42.05, -78.10, 100]"
      "[[42.00, -78.00, 200], [42.10, -78.10, 300], [42.00, -78.10, 200]]", OF _ g] 2
  show ?thesis by simp
qed

section \<open>getConvexHull\<close>

lemma withinTolerance_wellformed:
  "2 \<le> length c \<Longrightarrow> 2 \<le> length l \<Longrightarrow> withinTolerance c l = Inr (nearTo c l)"
  by (auto simp: withinTolerance_def nearTo_def subscript_def)

lemma concat_map_if_filter: "concat (map (\<lambda>x. if P x then [x] else []) xs) = filter P xs"
  by (induction xs) simp_all

lemma nearTo_flat: "nearTo c (flat l) = nearTo c l"
  by (simp add: nearTo_def flat_def)

lemma rematch_inner_loop:
  assumes wf: "\<forall>p \<in> set locs. 2 \<le> length p" and c: "2 \<le> length (ch2D ! i)"
    and i: "i < length ch2D"
  shows "for_each [0..<length (map flat locs)]
           (\<lambda>j ch. pbind (subscript ch2D i) (\<lambda>c.
                    pbind (subscript (map flat locs) j) (\<lambda>l.
                    pbind (withinTolerance c l) (\<lambda>near.
                      if near then pbind (subscript locs j) (\<lambda>p. Inr (ch @ [p]))
                      else Inr ch))))
           ch0
         = Inr (ch0 @ filter (nearTo (ch2D ! i)) locs)"
proof -
  let ?g = "\<lambda>j. if nearTo (ch2D ! i) (locs ! j) then [locs ! j] else []"
  have "for_each [0..<length (map flat locs)]
           (\<lambda>j ch. pbind (subscript ch2D i) (\<lambda>c.
                    pbind (subscript (map flat locs) j) (\<lambda>l.
                    pbind (withinTolerance c l) (\<lambda>near.
                      if near then pbind (subscript locs j) (\<lambda>p. Inr (ch @ [p]))
                      else Inr ch))))
           ch0
         = Inr (ch0 @ concat (map ?g [0..<length (map flat locs)]))"
  proof (rule for_each_extends)
    fix j ch assume "j \<in> set [0..<length (map flat locs)]"
    then have j: "j < length locs" by simp
    have "2 \<le> length (flat (locs ! j))" by (simp add: flat_def)
    with c have "withinTolerance (ch2D ! i) (flat (locs ! j)) = Inr (nearTo (ch2D ! i) (locs ! j))"
      by (simp add: withinTolerance_wellformed nearTo_flat)
    with i j show "pbind (subscript ch2D i) (\<lambda>c.
                    pbind (subscript (map flat locs) j) (\<lambda>l.
                    pbind (withinTolerance c l) (\<lambda>near.
                      if near then pbind (subscript locs j) (\<lambda>p. Inr (ch @ [p]))
                      else Inr ch))) = Inr (ch @ ?g j)"
      by (simp add: subscript_def)
  qed
  moreover have "concat (map ?g [0..<length (map flat locs)]) = filter (nearTo (ch2D ! i)) locs"
    using map_nth_upt [of "\<lambda>x. if nearTo (ch2D ! i) x then [x] else []" locs]
    by (simp add: concat_map_if_filter)
  ultimately show ?thesis by simp
qed

lemma getConvexHull_rematch:
  assumes "fst val" and wf: "\<forall>p \<in> set locs. 2 \<le> length p"
    and cv: "convexHullVertices env (map flat locs) = Inr vs"
    and vs: "\<forall>i \<in> set vs. i < length locs"
  shows "snd (getConvexHull env val locs) = Inr (Some (rematch (map ((!) locs) vs) locs))"
proof -
  obtain e w where val: "val = (True, e, w)"
    using assms(1) by (cases val) auto
  let ?ch2D = "map ((!) locs) vs"
  have ch2D: "for_each vs (\<lambda>i ch2D. pbind (subscript locs i) (\<lambda>p. Inr (ch2D @ [p]))) []
      = Inr ?ch2D"
  proof -
    have "for_each vs (\<lambda>i ch2D. pbind (subscript locs i) (\<lambda>p. Inr (ch2D @ [p]))) []
      = Inr ([] @ concat (map (\<lambda>i. [locs ! i]) vs))"
      by (rule for_each_extends) (use vs in \<open>simp add: subscript_def\<close>)
    then show ?thesis by (simp add: concat_map_singleton)
  qed
  have outer: "for_each [0..<length ?ch2D]
                 (\<lambda>i ch.
                    for_each [0..<length (map flat locs)]
                      (\<lambda>j ch.
                         pbind (subscript ?ch2D i) (\<lambda>c.
                         pbind (subscript (map flat locs) j) (\<lambda>l.
                         pbind (withinTolerance c l) (\<lambda>near.
                           if near then pbind (subscript locs j) (\<lambda>p. Inr (ch @ [p]))
                           else Inr ch))))
                      ch)
                 [] = Inr (rematch ?ch2D locs)"
  proof -
    have "for_each [0..<length ?ch2D]
                 (\<lambda>i ch.
                    for_each [0..<length (map flat locs)]
                      (\<lambda>j ch.
                         pbind (subscript ?ch2D i) (\<lambda>c.
                         pbind (subscript (map flat locs) j) (\<lambda>l.
                         pbind (withinTolerance c l) (\<lambda>near.
                           if near then pbind (subscript locs j) (\<lambda>p. Inr (ch @ [p]))
                           else Inr ch))))
                      ch)
                 [] = Inr ([] @ concat (map (\<lambda>i. filter (nearTo (?ch2D ! i)) locs)
                                          [0..<length ?ch2D]))"
    proof (rule for_each_extends)
      fix i ch assume "i \<in> set [0..<length ?ch2D]"
      then have i: "i < length ?ch2D" by simp
      then have "vs ! i \<in> set vs" by simp
      with vs wf have "2 \<le> length (locs ! (vs ! i))" by simp
      with i have "2 \<le> length (?ch2D ! i)" by simp
      from rematch_inner_loop [OF wf this i]
      show "for_each [0..<length (map flat locs)]
                      (\<lambda>j ch.
                         pbind (subscript ?ch2D i) (\<lambda>c.
                         pbind (subscript (map flat locs) j) (\<lambda>l.
                         pbind (withinTolerance c l) (\<lambda>near.
                           if near then pbind (subscript locs j) (\<lambda>p. Inr (ch @ [p]))
                           else Inr ch))))
                      ch = Inr (ch @ filter (nearTo (?ch2D ! i)) locs)" .
    qed
    moreover have "concat (map (\<lambda>i. filter (nearTo (?ch2D ! i)) locs) [0..<length ?ch2D])
        = rematch ?ch2D locs"
      using map_nth_upt [of "\<lambda>c. filter (nearTo c) locs" ?ch2D]
      by (simp only: rematch_def)
    ultimately show ?thesis by simp
  qed
  show ?thesis
    unfolding val getConvexHull_def validated_accepts
    by (simp only: project2D_wellformed [OF wf] cv ch2D outer pbind_Inr snd_conv)
qed



lemma set_rematch: "set (rematch ch2D locs) = {l \<in> set locs. \<exists>c \<in> set ch2D. nearTo c l}"
  by (auto simp: rematch_def)

lemma length_rematch:
  "length (rematch ch2D locs) = sum_list (map (\<lambda>c. length (filter (nearTo c) locs)) ch2D)"
  by (simp add: rematch_def length_concat comp_def)

lemma sum_list_one_more_at_0:
  "sum_list (map (\<lambda>i. if i = 0 then 2 else 1) vs) = length vs + count_list vs (0::nat)"
  by (induction vs) simp_all

lemma count_list_distinct: "distinct xs \<Longrightarrow> x \<in> set xs \<Longrightarrow> count_list xs x = 1"
  by (induction xs) (auto simp: count_list_0_iff)

lemma locs4_nth:
  "locs4 ! 0 = [0, 0]" "locs4 ! 1 = [0, 1]" "locs4 ! 2 = [1, 0]"
  "locs4 ! 3 = [1 / 20000, 1 / 20000]"
  by (simp_all add: locs4_def)

lemma locs4_near:
  "filter (nearTo [0, 0]) locs4 = [[0, 0], [1 / 20000, 1 / 20000]]"
  "filter (nearTo [0, 1]) locs4 = [[0, 1]]"
  "filter (nearTo [1, 0]) locs4 = [[1, 0]]"
  by (simp_all add: locs4_def nearTo_def)

lemma locs4_near_count:
  assumes "i \<in> {0, 1, 2}"
  shows "length (filter (nearTo (locs4 ! i)) locs4) = (if i = 0 then 2 else 1)"
proof -
  from assms consider "i = 0" | "i = 1" | "i = 2" by auto
  then show ?thesis
  proof cases
    case 1 then show ?thesis by (simp only: locs4_nth locs4_near) simp
  next
    case 2 then show ?thesis by (simp only: locs4_nth locs4_near) simp
  next
    case 3 then show ?thesis by (simp only: locs4_nth locs4_near) simp
  qed
qed

lemma rematch_locs4:
  assumes "set vs = {0, 1, 2}" and "length vs = 3"
  shows "length (rematch (map ((!) locs4) vs) locs4) = 4
       \<and> locs4 ! 3 \<in> set (rematch (map ((!) locs4) vs) locs4)
       \<and> locs4 ! 3 \<notin> set (map ((!) locs4) vs)"
proof (intro conjI)
  have "distinct vs"
    by (rule card_distinct) (simp add: assms)
  moreover have "0 \<in> set vs"
    by (simp add: assms(1))
  ultimately have one: "count_list vs 0 = 1"
    by (rule count_list_distinct)
  have "map (\<lambda>c. length (filter (nearTo c) locs4)) (map ((!) locs4) vs)
      = map (\<lambda>i. if i = 0 then 2 else 1) vs"
    using locs4_near_count by (simp add: assms(1))
  then show "length (rematch (map ((!) locs4) vs) locs4) = 4"
    by (simp only: length_rematch sum_list_one_more_at_0 one assms(2))
  have "locs4 ! 0 \<in> set (map ((!) locs4) vs)"
    using \<open>0 \<in> set vs\<close> by simp
  moreover have "nearTo (locs4 ! 0) (locs4 ! 3)" "locs4 ! 3 \<in> set locs4"
    by (simp_all add: locs4_def nearTo_def)
  ultimately show "locs4 ! 3 \<in> set (rematch (map ((!) locs4) vs) locs4)"
    unfolding set_rematch by blast
  have "set (map ((!) locs4) vs) = {locs4 ! 0, locs4 ! 1, locs4 ! 2}"
    by (simp only: set_map assms(1) image_insert image_empty)
  then show "locs4 ! 3 \<notin> set (map ((!) locs4) vs)"
    by (simp only: locs4_nth) simp
qed

text \<open>
  C10. \<open>getConvexHull\<close> matches each hull vertex, in hull order, against every input
  location with a tolerance of 0.0001 degrees on latitude and on longitude, and appends
  every location that matches. So the result can hold a location that is no hull vertex
  and more entries than the hull has vertices: for \<open>locs4\<close>, whose hull is the
  triangle of its first three locations, it has four entries and holds the fourth
  location, which lies strictly inside the triangle.
\<close>

theorem getConvexHull_rematches:
  "(fst val \<and> (\<forall>p \<in> set locs. 2 \<le> length p)
      \<and> convexHullVertices env (map flat locs) = Inr vs \<and> (\<forall>i \<in> set vs. i < length locs)
    \<longrightarrow> snd (getConvexHull env val locs) = Inr (Some (rematch (map ((!) locs) vs) locs)))
   \<and> (fst val' \<and> convexHullVertices env' (map flat locs4) = Inr vs'
      \<and> set vs' = {0, 1, 2} \<and> length vs' = 3
    \<longrightarrow> (\<exists>ch. snd (getConvexHull env' val' locs4) = Inr (Some ch)
            \<and> length ch = 4 \<and> length vs' < length ch
            \<and> locs4 ! 3 \<in> set ch \<and> locs4 ! 3 \<notin> set (map ((!) locs4) vs')
            \<and> nearTo (locs4 ! 0) (locs4 ! 3)
            \<and> strictlyInsideTriangle (locs4 ! 3) (locs4 ! 0) (locs4 ! 1) (locs4 ! 2)))"
proof (intro conjI impI)
  assume h: "fst val \<and> (\<forall>p \<in> set locs. 2 \<le> length p)
      \<and> convexHullVertices env (map flat locs) = Inr vs \<and> (\<forall>i \<in> set vs. i < length locs)"
  note 1 = h [THEN conjunct1] and 2 = h [THEN conjunct2, THEN conjunct1]
    and 3 = h [THEN conjunct2, THEN conjunct2, THEN conjunct1]
    and 4 = h [THEN conjunct2, THEN conjunct2, THEN conjunct2]
  show "snd (getConvexHull env val locs) = Inr (Some (rematch (map ((!) locs) vs) locs))"
    by (rule getConvexHull_rematch [OF 1 2 3 4])
next
  assume a: "fst val' \<and> convexHullVertices env' (map flat locs4) = Inr vs'
      \<and> set vs' = {0, 1, 2} \<and> length vs' = 3"
  note 1 = a [THEN conjunct1] and 3 = a [THEN conjunct2, THEN conjunct1]
    and sv = a [THEN conjunct2, THEN conjunct2, THEN conjunct1]
    and lv = a [THEN conjunct2, THEN conjunct2, THEN conjunct2]
  have wf: "\<forall>p \<in> set locs4. 2 \<le> length p"
    by (simp add: locs4_def)
  have 4: "\<forall>i \<in> set vs'. i < length locs4"
    unfolding sv by (simp add: locs4_def)
  note r = rematch_locs4 [OF sv lv]
  have eq: "snd (getConvexHull env' val' locs4)
      = Inr (Some (rematch (map ((!) locs4) vs') locs4))"
    by (rule getConvexHull_rematch [OF 1 wf 3 4])
  have len: "length (rematch (map ((!) locs4) vs') locs4) = 4"
    using r by (rule conjunct1)
  have more: "length vs' < length (rematch (map ((!) locs4) vs') locs4)"
    unfolding len lv by simp
  have near: "nearTo (locs4 ! 0) (locs4 ! 3)"
    by (simp add: locs4_def nearTo_def)
  have inside: "strictlyInsideTriangle (locs4 ! 3) (locs4 ! 0) (locs4 ! 1) (locs4 ! 2)"
    by (simp add: locs4_def strictlyInsideTriangle_def cross_def)
  from eq len more r near inside
  show "\<exists>ch. snd (getConvexHull env' val' locs4) = Inr (Some ch)
            \<and> length ch = 4 \<and> length vs' < length ch
            \<and> locs4 ! 3 \<in> set ch \<and> locs4 ! 3 \<notin> set (map ((!) locs4) vs')
            \<and> nearTo (locs4 ! 0) (locs4 ! 3)
            \<and> strictlyInsideTriangle (locs4 ! 3) (locs4 ! 0) (locs4 ! 1) (locs4 ! 2)"
    by (intro exI conjI) (elim conjE, assumption)+
qed

theorem getConvexHull_rematches_witness:
  "snd (getConvexHull (env0\<lparr>convexHullVertices := (\<lambda>locs2D. Inr [0, 1, 2])\<rparr>) (True, [], [])
          [[0, 0], [0, 1], [1, 0], [1 / 20000, 1 / 20000]])
     = Inr (Some [[0, 0], [1 / 20000, 1 / 20000], [0, 1], [1, 0]])"
proof -
  let ?env = "env0\<lparr>convexHullVertices := (\<lambda>locs2D. Inr [0, 1, 2])\<rparr>"
  have pre: "fst (True, [], []) \<and> (\<forall>p \<in> set locs4. 2 \<le> length p)
      \<and> convexHullVertices ?env (map flat locs4) = Inr [0, 1, 2]
      \<and> (\<forall>i \<in> set [0, 1, 2]. i < length locs4)"
    by (simp add: locs4_def)
  have "snd (getConvexHull ?env (True, [], []) locs4)
      = Inr (Some (rematch (map ((!) locs4) [0, 1, 2]) locs4))"
    by (rule getConvexHull_rematches [THEN conjunct1, THEN mp, OF pre])
  also have "rematch (map ((!) locs4) [0, 1, 2]) locs4
      = [[0, 0], [1 / 20000, 1 / 20000], [0, 1], [1, 0]]"
    unfolding rematch_def list.map concat.simps
    by (simp only: locs4_nth locs4_near append.simps)
  finally show ?thesis
    by (simp only: locs4_def)
qed

section \<open>closestPointLoc2Path\<close>












section \<open>The redistributed times\<close>

lemma for_each_append:
  "for_each (xs @ ys) body s = pbind (for_each xs body s) (for_each ys body)"
  by (induction xs arbitrary: s) (simp_all split: sum.splits)

lemma for_each_single: "for_each [i] body = body i"
  by (rule ext) (simp split: sum.splits)

lemma accumulate_sums:
  "Suc m \<le> length xs \<Longrightarrow>
   accumulate init (Suc m) xs = Inr (map (\<lambda>k. init + sum_list (take k (tl xs))) [0..<Suc m])"
proof (induction m)
  case 0
  then show ?case by (simp add: accumulate_def)
next
  case (Suc m)
  let ?f = "\<lambda>k. init + sum_list (take k (tl xs))"
  from Suc.prems have m: "m < length (tl xs)" by simp
  have IH: "accumulate init (Suc m) xs = Inr (map ?f [0..<Suc m])"
    using Suc by simp
  have up: "[1..<Suc (Suc m)] = [1..<Suc m] @ [Suc m]"
    by simp
  have "take (Suc m) (tl xs) = take m (tl xs) @ [tl xs ! m]"
    using m by (rule take_Suc_conv_app_nth)
  then have f: "?f (Suc m) = ?f m + xs ! Suc m"
    using m by (simp add: nth_tl)
  have "accumulate init (Suc (Suc m)) xs
      = pbind (accumulate init (Suc m) xs)
          (\<lambda>acc. pbind (subscript acc (Suc m - 1)) (\<lambda>a.
                   pbind (subscript xs (Suc m)) (\<lambda>x. Inr (acc @ [a + x]))))"
    unfolding accumulate_def up for_each_append for_each_single ..
  also have "\<dots> = Inr (map ?f [0..<Suc m] @ [?f m + xs ! Suc m])"
    unfolding IH using Suc.prems by (simp add: subscript_def nth_append)
  also have "\<dots> = Inr (map ?f [0..<Suc (Suc m)])"
    using f by simp
  finally show ?case .
qed

lemma sum_list_zeros: "\<forall>x \<in> set xs. f x = (0::real) \<Longrightarrow> sum_list (map f xs) = 0"
  by (induction xs) simp_all

lemma sum_list_last_only:
  "sum_list (map (\<lambda>k. if Suc k = Suc m then D else (0::real)) [0..<Suc m]) = D"
proof -
  have "sum_list (map (\<lambda>k. if Suc k = Suc m then D else (0::real)) [0..<m]) = 0"
    by (rule sum_list_zeros) simp
  then show ?thesis by simp
qed

lemma sum_list_proportional:
  assumes "sum_list ls \<noteq> (0::real)"
  shows "sum_list (map (\<lambda>l. D * l / sum_list ls) ls) = D"
proof -
  have "sum_list (map (\<lambda>l. D * l / sum_list ls) ls)
      = sum_list (map (\<lambda>l. (D / sum_list ls) * l) ls)"
    by (simp add: field_simps)
  also have "\<dots> = (D / sum_list ls) * sum_list ls"
    by (simp only: sum_list_const_mult) simp
  finally show ?thesis using assms by simp
qed

lemma distributeTimeDist_spec_total:
  assumes "2 \<le> length path"
  shows "\<exists>ts ds. distributeTimeDist_spec gd path D = Inr (ts, ds)
           \<and> length ts = length path \<and> length ds = length path \<and> sum_list (tl ts) = D"
proof -
  let ?ls = "segmentLengths gd path"
  from assms obtain m where m: "length ?ls = Suc m"
    by (cases "length path - 1") (auto simp: segmentLengths_def)
  have len: "length ?ls = length path - 1"
    by (simp add: segmentLengths_def)
  show ?thesis
  proof (cases "sum_list ?ls = 0")
    case True
    then show ?thesis
      using assms len m sum_list_last_only [of m D]
      by (simp add: distributeTimeDist_spec_def Let_def)
  next
    case False
    then show ?thesis
      using assms len sum_list_proportional [OF False, of D]
      by (simp add: distributeTimeDist_spec_def Let_def)
  qed
qed

lemma rows_loop_nth:
  assumes loop: "for_each [1..<n]
                 (\<lambda>i assignments. pbind (assignmentRow oid obj mf st accTime dicPath i)
                                     (\<lambda>row. Inr (assignments @ [row]))) [] = Inr rows"
  shows "length rows = n - 1"
    and "k < length rows \<Longrightarrow>
         assignmentRow oid obj mf st accTime dicPath (Suc k) = Inr (rows ! k)"
proof -
  from for_each_collect [OF loop]
  have m: "map (assignmentRow oid obj mf st accTime dicPath) [1..<n] = map Inr rows"
    by simp
  then show len: "length rows = n - 1"
    by (metis length_map length_upt)
  assume k: "k < length rows"
  with len have kn: "k < length [1..<n]" by simp
  have "assignmentRow oid obj mf st accTime dicPath (Suc k)
      = assignmentRow oid obj mf st accTime dicPath ([1..<n] ! k)"
    using k len by simp
  also have "\<dots> = map (assignmentRow oid obj mf st accTime dicPath) [1..<n] ! k"
    using kn by (rule nth_map [symmetric])
  also have "\<dots> = map Inr rows ! k"
    by (simp only: m)
  also have "\<dots> = Inr (rows ! k)"
    using k by simp
  finally show "assignmentRow oid obj mf st accTime dicPath (Suc k) = Inr (rows ! k)" .
qed

text \<open>
  With \<open>distributeTimeDist\<close> as the specification describes it, a dataframe that
  \<open>getShapepoints2D\<close> returns for distinct locations and an expected duration \<open>D\<close>
  ends at \<open>startTimeSec + D\<close>: the accumulated times are the partial sums of the
  redistributed times, and those sum to \<open>D\<close>.
\<close>

lemma getShapepoints2D_route_cases:
  assumes "snd (getShapepoints2D env val oid obj mf startLoc endLoc t0 expDurationSec routeType
             speedMPS st dataProvider dataProviderArgs) = Inr (Some rows)"
    and "startLoc \<noteq> endLoc"
  shows "\<exists>path time0 dist0 ts (ds :: real list) accTime mf'.
            retime env path time0 dist0 speedMPS expDurationSec = Inr (ts, ds) \<and>
            accumulate t0 (length ds) ts = Inr accTime \<and>
            for_each [1..<length path]
              (\<lambda>i assignments. pbind (assignmentRow oid obj mf' st accTime (locs2Dict env path) i)
                                  (\<lambda>row. Inr (assignments @ [row]))) [] = Inr rows"
proof -
  obtain v e w where val: "val = (v, e, w)" by (cases val) auto
  show ?thesis
  proof (cases v)
    case False
    with assms val show ?thesis
      by (simp add: getShapepoints2D_def validated_def)
  next
    case True
    with assms val show ?thesis
      by (auto simp: getShapepoints2D_def validated_def Let_def pbind_eq_Inr
          split: sum.splits option.splits prod.splits if_splits)
         (intro exI conjI, assumption+)+
  qed
qed

lemma expected_duration_reached:
  assumes res: "snd (getShapepoints2D env val oid obj mf startLoc endLoc t0 (Some D) routeType
             speedMPS st dataProvider dataProviderArgs) = Inr (Some rows)"
    and ne: "startLoc \<noteq> endLoc" and rows: "rows \<noteq> []"
    and spec: "distributeTimeDist env = distributeTimeDist_spec (geoDistance2D env)"
  shows "endTimeSec (last rows) = t0 + D"
proof -
  from getShapepoints2D_route_cases [OF res ne]
  obtain path time0 dist0 ts and ds :: "real list" and accTime mf'
    where rt: "retime env path time0 dist0 speedMPS (Some D) = Inr (ts, ds)"
      and acc: "accumulate t0 (length ds) ts = Inr accTime"
      and loop: "for_each [1..<length path]
              (\<lambda>i assignments. pbind (assignmentRow oid obj mf' st accTime (locs2Dict env path) i)
                                  (\<lambda>row. Inr (assignments @ [row]))) [] = Inr rows"
    by blast
  from rt have d: "distributeTimeDist_spec (geoDistance2D env) path D = Inr (ts, ds)"
    by (auto simp: retime_def pbind_eq_Inr spec)
  from rows_loop_nth(1) [OF loop] rows have n: "2 \<le> length path" "length rows = length path - 1"
    by (cases rows; simp)+
  from distributeTimeDist_spec_total [OF n(1), of "geoDistance2D env" D] d
  have lts: "length ts = length path" and lds: "length ds = length path"
    and total: "sum_list (tl ts) = D"
    by simp_all
  obtain m where m: "length path = Suc (Suc m)"
    using n(1) by (metis Suc_le_D numeral_2_eq_2 Suc_le_mono)
  from accumulate_sums [of "Suc m" ts t0] acc lts lds m
  have accTime: "accTime = map (\<lambda>k. t0 + sum_list (take k (tl ts))) [0..<Suc (Suc m)]"
    by simp
  have "last rows = rows ! m"
    using rows n(2) m by (simp add: last_conv_nth)
  moreover have "assignmentRow oid obj mf' st accTime (locs2Dict env path) (Suc m) = Inr (rows ! m)"
    using rows_loop_nth(2) [OF loop, of m] n(2) m by simp
  ultimately have "endTimeSec (last rows) = accTime ! Suc m"
    using assignmentRow_eq_Inr by fastforce
  also have "\<dots> = t0 + sum_list (take (Suc m) (tl ts))"
    unfolding accTime by (simp only: nth_map_upt) simp
  also have "take (Suc m) (tl ts) = tl ts"
    using lts m by simp
  finally show ?thesis using total by simp
qed


text \<open>
  For the direct rule the dataframe is returned, with its single row, whatever the
  distance between the two locations is.
\<close>

lemma advisory_wellformed:
  "2 \<le> length l \<Longrightarrow>
   advisory env mk l d
     = Inr (if d \<ge> VRV_DEFAULT_DISTANCE_ERROR_TOLERANCE env then [mk (l ! 0) (l ! 1) d] else [])"
  by (auto simp: advisory_def subscript_def)

lemma upt_1_2: "[1..<2] = [1]"
  by (simp add: upt_rec)

lemma distributeTimeDist_spec_two_points:
  "distributeTimeDist_spec gd [a, b] D = Inr ([0, D], [0, gd a b])"
  by (simp add: distributeTimeDist_spec_def segmentLengths_def upt_1_2 Let_def)

lemma euclidean_duration_row:
  assumes "fst val" and "startLoc \<noteq> endLoc"
    and "2 \<le> length startLoc" and "2 \<le> length endLoc"
    and "map_option lower routeType = Some ''euclidean2d''"
    and "distributeTimeDist env = distributeTimeDist_spec (geoDistance2D env)"
    and "length (locs2Dict env [startLoc, endLoc]) = 2"
  shows "\<exists>row. snd (getShapepoints2D env val oid obj mf startLoc endLoc t0 (Some D) routeType
                      speedMPS st dataProvider dataProviderArgs) = Inr (Some [row])
             \<and> startTimeSec row = t0 \<and> endTimeSec row = t0 + D"
proof -
  obtain e w where val: "val = (True, e, w)"
    using assms(1) by (cases val) auto
  have sel: "selectRoute env startLoc endLoc speedMPS (Some D) (Some ''euclidean2d'')
               (map_option lower dataProvider) dataProviderArgs
             = Inr (Some ([startLoc, endLoc], [0, D], [0, geoDistance2D env startLoc endLoc]))"
    by (simp add: selectRoute_def eucGetShapepointsTimeDist_def Let_def)
  have rt: "retime env [startLoc, endLoc] [0, D] [0, geoDistance2D env startLoc endLoc]
              speedMPS (Some D)
            = Inr ([0, D], [0, geoDistance2D env startLoc endLoc])"
    by (simp add: retime_def accumulate_def upt_1_2 subscript_def assms(6)
        distributeTimeDist_spec_two_points)
  have acc: "accumulate t0 (Suc (Suc 0)) [0, D] = Inr [t0, t0 + D]"
    by (simp add: accumulate_def subscript_def)
  have ne: "locs2Dict env [startLoc, endLoc] \<noteq> []"
    using assms(7) by auto
  show ?thesis
    unfolding val getShapepoints2D_def validated_accepts
    using assms(2,7) ne
    by (simp add: assms(5) sel Let_def subscript_def subscript_last_def
        advisory_wellformed [OF assms(3)] advisory_wellformed [OF assms(4)] rt acc upt_1_2
        assignmentRow_def)
qed


end
